theory Spec2Isabelle
  imports Complex_Main "HOL-Library.Log_Nat"
begin

section \<open>Python primitives used by \<open>stt_utils.py\<close>\<close>

text \<open>
  The exceptions the modelled code can raise. \<open>ValueError\<close> is what \<open>range\<close> raises
  on a zero step and \<open>int\<close> on a NaN, \<open>OverflowError\<close> what \<open>int\<close> raises on an
  infinity and the conversion of an integer to \<open>float\<close> on an integer beyond the range
  of a double, \<open>RuntimeError\<close> what an in-place tensor operation raises on shapes that
  do not broadcast, \<open>TypeError\<close> what unpacking \<open>None\<close> into a tuple raises.
\<close>

datatype error = ValueError | RuntimeError | TypeError | OverflowError

text \<open>
  Slicing \<open>xs[start:stop]\<close> with step 1. A bound that is left out is \<open>None\<close>. A negative
  bound counts from the end, and every bound is clamped into \<open>[0, len]\<close>; a slice
  never raises.
\<close>

definition py_index :: "nat \<Rightarrow> int \<Rightarrow> nat" where
  "py_index len i = (if i < 0 then nat (max (int len + i) 0) else min (nat i) len)"

definition py_slice :: "'a list \<Rightarrow> int option \<Rightarrow> int option \<Rightarrow> 'a list" where
  "py_slice xs start stop =
     (let lo = (case start of None \<Rightarrow> 0 | Some i \<Rightarrow> py_index (length xs) i);
          hi = (case stop of None \<Rightarrow> length xs | Some j \<Rightarrow> py_index (length xs) j)
      in take (hi - lo) (drop lo xs))"

text \<open>\<open>range(stop)\<close>: the integers \<open>0, 1, ..., stop - 1\<close>, none when \<open>stop \<le> 0\<close>.\<close>

definition py_range1 :: "int \<Rightarrow> int list" where
  "py_range1 stop = map int [0..<nat stop]"

text \<open>\<open>range(start, stop, step)\<close>; a zero step raises \<open>ValueError\<close>.\<close>

definition py_range :: "int \<Rightarrow> int \<Rightarrow> int \<Rightarrow> error + int list" where
  "py_range start stop step =
     (if step = 0 then Inl ValueError
      else let len = (if step > 0
                      then (if start < stop then (stop - start - 1) div step + 1 else 0)
                      else (if stop < start then (start - stop - 1) div (- step) + 1 else 0))
           in Inr (map (\<lambda>k. start + int k * step) [0..<nat len]))"

text \<open>A loop over a list that stops at the first exception.\<close>

fun map_err :: "('a \<Rightarrow> error + 'b) \<Rightarrow> 'a list \<Rightarrow> error + 'b list" where
  "map_err f [] = Inr []"
| "map_err f (x # xs) =
     (case f x of
        Inl e \<Rightarrow> Inl e
      | Inr y \<Rightarrow> (case map_err f xs of Inl e \<Rightarrow> Inl e | Inr ys \<Rightarrow> Inr (y # ys)))"

section \<open>Floating-point numbers\<close>

text \<open>
  A floating-point value, as Python's \<open>float\<close> and the samples of a float tensor have
  it: a finite value, given by the exact rational it denotes, an infinity, or a NaN. The
  two zeros are not told apart (they compare equal, and \<open>int\<close> maps both to 0).
\<close>

datatype ieee = Finite rat | PosInf | NegInf | NaN

text \<open>
  Rounding to the nearest double (IEEE 754 binary64), ties to the even mantissa. For
  \<open>x \<noteq> 0\<close> with \<open>2 ^ e \<le> \<bar>x\<bar> < 2 ^ (e + 1)\<close> the doubles around \<open>\<bar>x\<bar>\<close> are the
  multiples of \<open>2 ^ (e - 52)\<close>, or of \<open>2 ^ (- 1074)\<close> below the normal range; the result
  is \<open>None\<close> when the rounded magnitude reaches \<open>2 ^ 1024\<close> (overflow), that is, when
  its binary exponent exceeds 1023. \<open>floor_log2 a\<close> is the binary exponent of a positive
  rational, the floor of its logarithm to base 2, computed from the bit lengths of its
  numerator and denominator (for a rounded magnitude of 0, in the overflow test, it is
  negative).
\<close>

definition round_half_even :: "rat \<Rightarrow> int" where
  "round_half_even m =
     (let f = \<lfloor>m\<rfloor>; d = m - of_int f
      in if d < 1 / 2 then f
         else if 1 / 2 < d then f + 1
         else if even f then f else f + 1)"

definition floor_log2 :: "rat \<Rightarrow> int" where
  "floor_log2 a =
     (case quotient_of a of
        (p, q) \<Rightarrow> (let e0 = bitlen p - bitlen q
                   in if 2 powi e0 \<le> a then e0 else e0 - 1))"

definition round_double :: "rat \<Rightarrow> rat option" where
  "round_double x =
     (if x = 0 then Some 0
      else let a = \<bar>x\<bar>;
               e = max (floor_log2 a) (- 1022);
               q = 2 powi (e - 52);
               y = of_int (round_half_even (a / q)) * q
           in if 1024 \<le> floor_log2 y then None else Some (sgn x * y))"

text \<open>
  The rationals that are doubles: \<open>m * 2 ^ e\<close> with a mantissa \<open>m\<close> of at most 53 bits
  and an exponent \<open>e\<close> from -1074 to 971.
\<close>

definition is_double :: "rat \<Rightarrow> bool" where
  "is_double x \<longleftrightarrow>
     (\<exists>m e. x = of_int m * 2 powi e \<and> \<bar>m\<bar> < 2 ^ 53 \<and> - 1074 \<le> e \<and> e \<le> 971)"

text \<open>The sign of a value, and the infinity (or NaN) of a given sign.\<close>

definition ieee_sgn :: "ieee \<Rightarrow> int" where
  "ieee_sgn x = (case x of
       Finite a \<Rightarrow> (if 0 < a then 1 else if a < 0 then - 1 else 0)
     | PosInf \<Rightarrow> 1
     | NegInf \<Rightarrow> - 1
     | NaN \<Rightarrow> 0)"

definition inf_of_sign :: "int \<Rightarrow> ieee" where
  "inf_of_sign s = (if s = 0 then NaN else if 0 < s then PosInf else NegInf)"

text \<open>
  Python's \<open>float(i)\<close> for an integer, the product \<open>x * y\<close> of two \<open>float\<close>s, and
  \<open>int(x)\<close> for a \<open>float\<close>. The conversion and the product round to the nearest
  double; a product beyond the range is an infinity, and an infinity times zero is a NaN.
  \<open>int\<close> truncates towards zero and raises on an infinity or a NaN.
\<close>

definition py_float :: "int \<Rightarrow> error + ieee" where
  "py_float i = (case round_double (of_int i) of
       None \<Rightarrow> Inl OverflowError
     | Some v \<Rightarrow> Inr (Finite v))"

definition float_mul :: "ieee \<Rightarrow> ieee \<Rightarrow> ieee" where
  "float_mul x y =
     (case (x, y) of
        (Finite a, Finite b) \<Rightarrow>
          (case round_double (a * b) of
             Some c \<Rightarrow> Finite c
           | None \<Rightarrow> inf_of_sign (ieee_sgn x * ieee_sgn y))
      | _ \<Rightarrow> if x = NaN \<or> y = NaN then NaN else inf_of_sign (ieee_sgn x * ieee_sgn y))"

definition py_int :: "ieee \<Rightarrow> error + int" where
  "py_int x = (case x of
       Finite v \<Rightarrow> Inr (if v < 0 then \<lceil>v\<rceil> else \<lfloor>v\<rfloor>)
     | NaN \<Rightarrow> Inl ValueError
     | _ \<Rightarrow> Inl OverflowError)"

text \<open>
  The expression \<open>int(overlap_ratio * winsize)\<close> with a \<open>float\<close> ratio and an integer
  window size: the integer is converted to \<open>float\<close>, the two are multiplied as doubles,
  and the product is truncated.
\<close>

definition int_of_float_times_int :: "ieee \<Rightarrow> int \<Rightarrow> error + int" where
  "int_of_float_times_int x i =
     (case py_float i of
        Inl e \<Rightarrow> Inl e
      | Inr y \<Rightarrow> py_int (float_mul x y))"

text \<open>
  The arithmetic of tensor samples. On finite samples it is exact: the rounding of the
  tensor's numeric type, and an overflow of finite operands, are left out, so that a
  statement about finite sample values is one of exact rational arithmetic. The special
  values behave as IEEE 754 has them in every numeric type: a NaN operand gives a NaN,
  an infinity times zero is a NaN, and so is the sum of the two infinities.
\<close>

definition sample_mul :: "ieee \<Rightarrow> ieee \<Rightarrow> ieee" where
  "sample_mul x y =
     (case (x, y) of
        (Finite a, Finite b) \<Rightarrow> Finite (a * b)
      | _ \<Rightarrow> if x = NaN \<or> y = NaN then NaN else inf_of_sign (ieee_sgn x * ieee_sgn y))"

definition sample_add :: "ieee \<Rightarrow> ieee \<Rightarrow> ieee" where
  "sample_add x y =
     (case (x, y) of
        (Finite a, Finite b) \<Rightarrow> Finite (a + b)
      | (Finite a, _) \<Rightarrow> y
      | (_, Finite b) \<Rightarrow> x
      | _ \<Rightarrow> if x = y then x else NaN)"

definition is_finite :: "ieee \<Rightarrow> bool" where
  "is_finite x = (case x of Finite v \<Rightarrow> True | _ \<Rightarrow> False)"

section \<open>String processing\<close>

text \<open>
  \<open>Levenshtein.ratio\<close> belongs to the external \<open>Levenshtein\<close> package, not to this
  repository. It is modelled from the package's documented behaviour: the edit distance
  in which an insertion or a deletion costs 1 and a substitution costs 2, normalised by
  the sum of the two lengths, and 1 for two empty strings. The score is kept as an
  exact rational; the package returns the nearest double.
\<close>

fun lev_edit_distance :: "'a list \<Rightarrow> 'a list \<Rightarrow> nat" where
  "lev_edit_distance [] ys = length ys"
| "lev_edit_distance (x # xs) [] = Suc (length xs)"
| "lev_edit_distance (x # xs) (y # ys) =
     min (min (Suc (lev_edit_distance xs (y # ys))) (Suc (lev_edit_distance (x # xs) ys)))
         (lev_edit_distance xs ys + (if x = y then 0 else 2))"

definition Levenshtein_ratio :: "string \<Rightarrow> string \<Rightarrow> rat" where
  "Levenshtein_ratio s1 s2 =
     (let lensum = length s1 + length s2; ldist = lev_edit_distance s1 s2
      in if lensum = 0 then 1 else (of_nat lensum - of_nat ldist) / of_nat lensum)"

text \<open>
  One iteration of the loop of \<open>merge_overlapping_strings\<close>: the state is the pair
  \<open>(match, match_score)\<close>, overwritten whenever the score of candidate \<open>i\<close> reaches
  the threshold. The candidate compares \<open>str1[-i:]\<close> with \<open>str2[:i]\<close>.
\<close>

definition overlap_score :: "string \<Rightarrow> string \<Rightarrow> int \<Rightarrow> rat" where
  "overlap_score str1 str2 i =
     Levenshtein_ratio (py_slice str1 (Some (- i)) None) (py_slice str2 None (Some i))"

definition merge_step :: "string \<Rightarrow> string \<Rightarrow> rat \<Rightarrow> int \<times> rat \<Rightarrow> int \<Rightarrow> int \<times> rat" where
  "merge_step str1 str2 thresh st i =
     (let score = overlap_score str1 str2 i
      in if score \<ge> thresh then (i, score) else st)"

definition merge_overlapping_strings ::
  "string \<Rightarrow> string \<Rightarrow> rat \<Rightarrow> int option \<Rightarrow> string \<times> int \<times> rat" where
  "merge_overlapping_strings str1 str2 thresh max_range =
     (let max_range' = (case max_range of
                          None \<Rightarrow> int (min (length str1) (length str2))
                        | Some m \<Rightarrow> m);
          (match, match_score) =
             foldl (merge_step str1 str2 thresh) (0, - 1) (py_range1 max_range');
          result = str1 @ py_slice str2 (Some match) None
      in (result, match, match_score))"

text \<open>
  The candidate similarity in the words of the specification: between the last \<open>i\<close>
  characters of \<open>str1\<close> and the first \<open>i\<close> characters of \<open>str2\<close>.
\<close>

definition spec_overlap_score :: "string \<Rightarrow> string \<Rightarrow> nat \<Rightarrow> rat" where
  "spec_overlap_score str1 str2 i =
     Levenshtein_ratio (drop (length str1 - i) str1) (take i str2)"

section \<open>Tensors\<close>

text \<open>
  A 1-D tensor: its samples, its numeric type and its device. The numeric types are the
  floating ones (the audio is float audio): an in-place operation keeps the numeric
  type of its target. A tensor with a batch dimension of one, shape \<open>(1, n)\<close>, is
  represented by its single row.
\<close>

datatype dtype = Float16 | BFloat16 | Float32 | Float64

type_synonym device = string

record tensor =
  vals :: "ieee list"
  dtype :: dtype
  device :: device

definition zeros_like :: "tensor \<Rightarrow> device \<Rightarrow> tensor" where
  "zeros_like t dev =
     \<lparr>vals = replicate (length (vals t)) (Finite 0), dtype = dtype t, device = dev\<rparr>"

definition to_device :: "tensor \<Rightarrow> device \<Rightarrow> tensor" where
  "to_device t dev = t\<lparr>device := dev\<rparr>"

text \<open>\<open>torch.linspace(start, end, steps)\<close>: \<open>steps\<close> evenly spaced values.\<close>

definition linspace :: "rat \<Rightarrow> rat \<Rightarrow> nat \<Rightarrow> ieee list" where
  "linspace start end' steps =
     map (\<lambda>i. Finite (start + (end' - start) * of_nat i / of_nat (steps - 1))) [0..<steps]"

text \<open>
  An in-place operation on a slice, \<open>xs[start:stop] op= ys\<close> (with \<open>f\<close> the operation;
  plain assignment is \<open>\<lambda>_ y. y\<close>). The operand must have the length of the slice or
  length 1 (it is then broadcast); otherwise the operation raises. The result is the new
  content of \<open>xs\<close>.
\<close>

definition inplace_slice_op ::
  "('a \<Rightarrow> 'a \<Rightarrow> 'a) \<Rightarrow> 'a list \<Rightarrow> int option \<Rightarrow> int option \<Rightarrow> 'a list \<Rightarrow> error + 'a list" where
  "inplace_slice_op f xs start stop ys =
     (let lo = (case start of None \<Rightarrow> 0 | Some i \<Rightarrow> py_index (length xs) i);
          target = py_slice xs start stop
      in if length ys = length target
         then Inr (take lo xs @ map2 f target ys @ drop (lo + length target) xs)
         else if length ys = 1
         then Inr (take lo xs @ map (\<lambda>x. f x (hd ys)) target @ drop (lo + length target) xs)
         else Inl RuntimeError)"

section \<open>Audio signal processing\<close>

text \<open>
  \<open>linear_fade\<close> works in place; the model returns the content of the tensor after
  the call, or the exception of the first in-place multiplication that fails.
\<close>

definition linear_fade :: "tensor \<Rightarrow> int \<Rightarrow> int \<Rightarrow> error + tensor" where
  "linear_fade tnsr fade_in fade_out =
     (case (if fade_in > 0
            then (let ramp_in = linspace 0 1 (nat (fade_in + 2))
                  in inplace_slice_op sample_mul (vals tnsr) None (Some (fade_in + 1))
                       (py_slice ramp_in (Some 1) None))
            else Inr (vals tnsr)) of
        Inl e \<Rightarrow> Inl e
      | Inr v1 \<Rightarrow>
          (case (if fade_out > 0
                 then (let ramp_out = linspace 1 0 (nat (fade_out + 2))
                       in inplace_slice_op sample_mul v1 (Some (- fade_out - 1)) None
                            (py_slice ramp_out None (Some (- 1))))
                 else Inr v1) of
             Inl e \<Rightarrow> Inl e
           | Inr v2 \<Rightarrow> Inr (tnsr\<lparr>vals := v2\<rparr>)))"

section \<open>Windowed inference\<close>

text \<open>
  The state the engine works on. \<open>heap\<close> holds the tensors that exist when a function is
  called and those the function allocates itself; a tensor is referred to by its index,
  and an allocation appends. \<open>model_calls\<close> records the batches the inference callable
  has been invoked with, in order. The callable itself is a total function of the batch
  content that returns a fresh object: an exception it raises, and an output that
  aliases another tensor, are outside the model. Its outputs are therefore held by value
  in the list \<open>chunks\<close>, and an in-place change of one of them replaces it in that
  list. Console output is left out.
\<close>

record world =
  heap :: "tensor list"
  model_calls :: "tensor list"

text \<open>
  The loop of \<open>windowed_run\<close> over \<open>window_range\<close>: \<open>a\<close> is the reference of \<open>tnsr\<close> and
  \<open>b\<close> that of the reused \<open>batch\<close>. \<open>batch *= 0\<close> multiplies every sample of the batch by
  zero, which leaves a NaN where the sample was an infinity or a NaN.
\<close>

fun windowed_run_loop ::
  "(tensor \<Rightarrow> 'r) \<Rightarrow> ('r \<Rightarrow> 'o) \<Rightarrow> nat \<Rightarrow> nat \<Rightarrow> int \<Rightarrow> int list \<Rightarrow> 'o list \<Rightarrow> world
     \<Rightarrow> (error + 'o list) \<times> world" where
  "windowed_run_loop model chunk_hook a b winsize [] chunks w = (Inr chunks, w)"
| "windowed_run_loop model chunk_hook a b winsize (beg # begs) chunks w =
     (let end' = beg + winsize;
          chunk = py_slice (vals (heap w ! a)) (Some beg) (Some end');
          zeroed = map (\<lambda>x. sample_mul x (Finite 0)) (vals (heap w ! b))
      in case inplace_slice_op (\<lambda>_ y. y) zeroed None (Some (int (length chunk))) chunk of
           Inl e \<Rightarrow> (Inl e, w\<lparr>heap := (heap w)[b := (heap w ! b)\<lparr>vals := zeroed\<rparr>]\<rparr>)
         | Inr filled \<Rightarrow>
             (let batch = (heap w ! b)\<lparr>vals := filled\<rparr>;
                  output = chunk_hook (model batch);
                  w' = w\<lparr>heap := (heap w)[b := batch],
                         model_calls := model_calls w @ [batch]\<rparr>
              in windowed_run_loop model chunk_hook a b winsize begs (chunks @ [output]) w'))"

text \<open>
  \<open>overlap_ratio\<close> is a \<open>float\<close>, \<open>max_winsize\<close> an integer. The overlap is computed
  before anything is allocated, so an exception of \<open>int(overlap_ratio * winsize)\<close>
  leaves the state as it was.
\<close>

definition windowed_run ::
  "(tensor \<Rightarrow> 'r) \<Rightarrow> nat \<Rightarrow> int \<Rightarrow> ieee \<Rightarrow> device \<Rightarrow> ('r \<Rightarrow> 'o) \<Rightarrow> world
     \<Rightarrow> (error + ('o list \<times> int list \<times> int \<times> int)) \<times> world" where
  "windowed_run model a max_winsize overlap_ratio dev chunk_hook w =
     (let tnsr = heap w ! a;
          n = int (length (vals tnsr));
          winsize = min max_winsize n
      in case int_of_float_times_int overlap_ratio winsize of
           Inl e \<Rightarrow> (Inl e, w)
         | Inr overlap \<Rightarrow>
             (let stride = winsize - overlap;
                  b = length (heap w);
                  w1 = w\<lparr>heap := heap w @
                         [zeros_like (tnsr\<lparr>vals := py_slice (vals tnsr) None (Some winsize)\<rparr>) dev]\<rparr>
              in case py_range 0 n stride of
                   Inl e \<Rightarrow> (Inl e, w1)
                 | Inr window_range \<Rightarrow>
                     (case windowed_run_loop model chunk_hook a b winsize window_range [] w1 of
                        (Inl e, w2) \<Rightarrow> (Inl e, w2)
                      | (Inr chunks, w2) \<Rightarrow>
                          (Inr (chunks, window_range, winsize, overlap), w2))))"

text \<open>
  The overlay loop of \<open>windowed_audio_rendering\<close>: \<open>r\<close> is the reference of \<open>result\<close>.
\<close>

fun overlay_loop ::
  "nat \<Rightarrow> int \<Rightarrow> int \<Rightarrow> (int \<times> tensor) list \<Rightarrow> world \<Rightarrow> (error + unit) \<times> world" where
  "overlay_loop r winsize len_result [] w = (Inr (), w)"
| "overlay_loop r winsize len_result ((beg, ch) # rest) w =
     (let end' = min (beg + winsize) len_result;
          chunksize = end' - beg
      in case inplace_slice_op sample_add (vals (heap w ! r)) (Some beg) (Some end')
                (py_slice (vals ch) None (Some chunksize)) of
           Inl e \<Rightarrow> (Inl e, w)
         | Inr v \<Rightarrow>
             overlay_loop r winsize len_result rest
               (w\<lparr>heap := (heap w)[r := (heap w ! r)\<lparr>vals := v\<rparr>]\<rparr>))"

text \<open>
  The chunks are faded in place, so after each fading loop the list \<open>chunks\<close> holds the
  faded content of the chunks the loop went through and the others as they were.
\<close>

definition windowed_audio_rendering ::
  "(tensor \<Rightarrow> tensor) \<Rightarrow> nat \<Rightarrow> int \<Rightarrow> ieee \<Rightarrow> device \<Rightarrow> world
     \<Rightarrow> (error + (nat \<times> int list \<times> int \<times> int)) \<times> world" where
  "windowed_audio_rendering model a max_winsize overlap_ratio dev w =
     (case windowed_run model a max_winsize overlap_ratio dev (\<lambda>ch. to_device ch ''cpu'') w of
        (Inl e, w1) \<Rightarrow> (Inl e, w1)
      | (Inr (chunks, begs, winsize, overlap), w1) \<Rightarrow>
          (case map_err (\<lambda>ch. linear_fade ch overlap 0) (py_slice chunks (Some 1) None) of
             Inl e \<Rightarrow> (Inl e, w1)
           | Inr faded_in \<Rightarrow>
               (let chunks1 = py_slice chunks None (Some 1) @ faded_in
                in case map_err (\<lambda>ch. linear_fade ch 0 overlap)
                          (py_slice chunks1 None (Some (- 1))) of
                     Inl e \<Rightarrow> (Inl e, w1)
                   | Inr faded_out \<Rightarrow>
                       (let chunks2 = faded_out @ py_slice chunks1 (Some (- 1)) None;
                            tnsr = heap w1 ! a;
                            r = length (heap w1);
                            w2 = w1\<lparr>heap := heap w1 @ [zeros_like tnsr (device tnsr)]\<rparr>;
                            len_result = int (length (vals (heap w2 ! r)))
                        in case overlay_loop r winsize len_result (zip begs chunks2) w2 of
                             (Inl e, w3) \<Rightarrow> (Inl e, w3)
                           | (Inr _, w3) \<Rightarrow> (Inr (r, begs, winsize, overlap), w3)))))"

text \<open>
  The merging loop of \<open>windowed_stt_rendering\<close>. The speech-to-text callable returns the
  pair \<open>(texts, embeddings)\<close>; with a batch of one row, \<open>texts\<close> is represented by its
  single text, so that the hook \<open>ch[0][0]\<close> is the first projection.
\<close>

fun stt_merge_loop ::
  "rat \<Rightarrow> int \<Rightarrow> string list \<Rightarrow> string \<Rightarrow> rat list \<Rightarrow> string \<times> rat list" where
  "stt_merge_loop thresh max_chars [] merged match_scores = (merged, match_scores)"
| "stt_merge_loop thresh max_chars (ch # chunks) merged match_scores =
     (case merge_overlapping_strings merged ch thresh (Some max_chars) of
        (merged', _, match_score) \<Rightarrow>
          stt_merge_loop thresh max_chars chunks merged' (match_scores @ [match_score]))"

definition windowed_stt_rendering ::
  "(tensor \<Rightarrow> string \<times> 'e) \<Rightarrow> nat \<Rightarrow> int \<Rightarrow> ieee \<Rightarrow> device \<Rightarrow> rat \<Rightarrow> int \<Rightarrow> world
     \<Rightarrow> (error + (string \<times> rat list)) \<times> world" where
  "windowed_stt_rendering model a max_winsize overlap_ratio dev overlap_merge_threshold
       max_overlap_characters w =
     (case windowed_run model a max_winsize overlap_ratio dev fst w of
        (Inl e, w1) \<Rightarrow> (Inl e, w1)
      | (Inr (chunks, begs, winsize, overlap), w1) \<Rightarrow>
          (Inr (stt_merge_loop overlap_merge_threshold max_overlap_characters chunks [] []), w1))"

section \<open>The worker's variant (\<open>wav_to_text_silero.py\<close>)\<close>

text \<open>
  \<open>WavToTextSileroWorker\<close> has its own copies of \<open>windowed_run\<close> and
  \<open>windowed_stt_rendering\<close>, which read \<open>self._abort\<close> at the head of every iteration
  and \<open>return\<close> (that is, return \<open>None\<close>) when it is set, and otherwise emit a progress
  value. The flag is set by another thread; the worker only reads it, so the model takes
  the value each read yields as given: \<open>abort_seen s k\<close> is what the \<open>k\<close>-th read of
  the flag sees, \<open>abort_reads\<close> counts the reads. \<open>progress\<close> records each emission as
  the pair \<open>(i, total)\<close> from which the source computes \<open>int(i / total * 100)\<close>.
\<close>

record worker =
  abort_seen :: "nat \<Rightarrow> bool"
  abort_reads :: nat
  progress :: "(int \<times> int) list"

text \<open>\<open>enumerate(xs, 1)\<close>.\<close>

definition py_enumerate1 :: "'a list \<Rightarrow> (int \<times> 'a) list" where
  "py_enumerate1 xs = zip (map int [1..<Suc (length xs)]) xs"

fun Worker_windowed_run_loop ::
  "(tensor \<Rightarrow> 'r) \<Rightarrow> ('r \<Rightarrow> 'o) \<Rightarrow> nat \<Rightarrow> nat \<Rightarrow> int \<Rightarrow> int \<Rightarrow> (int \<times> int) list \<Rightarrow> 'o list
     \<Rightarrow> worker \<Rightarrow> world \<Rightarrow> (error + 'o list option) \<times> worker \<times> world" where
  "Worker_windowed_run_loop model chunk_hook a b winsize num_windows [] chunks s w =
     (Inr (Some chunks), s, w)"
| "Worker_windowed_run_loop model chunk_hook a b winsize num_windows ((i, beg) # rest) chunks s w =
     (let s1 = s\<lparr>abort_reads := Suc (abort_reads s)\<rparr>
      in if abort_seen s (abort_reads s) then (Inr None, s1, w)
         else
           (let s2 = s1\<lparr>progress := progress s1 @ [(i, num_windows)]\<rparr>;
                end' = beg + winsize;
                chunk = py_slice (vals (heap w ! a)) (Some beg) (Some end');
                zeroed = map (\<lambda>x. sample_mul x (Finite 0)) (vals (heap w ! b))
            in case inplace_slice_op (\<lambda>_ y. y) zeroed None (Some (int (length chunk))) chunk of
                 Inl e \<Rightarrow> (Inl e, s2, w\<lparr>heap := (heap w)[b := (heap w ! b)\<lparr>vals := zeroed\<rparr>]\<rparr>)
               | Inr filled \<Rightarrow>
                   (let batch = (heap w ! b)\<lparr>vals := filled\<rparr>;
                        output = chunk_hook (model batch);
                        w' = w\<lparr>heap := (heap w)[b := batch],
                               model_calls := model_calls w @ [batch]\<rparr>
                    in Worker_windowed_run_loop model chunk_hook a b winsize num_windows rest
                         (chunks @ [output]) s2 w')))"

definition Worker_windowed_run ::
  "(tensor \<Rightarrow> 'r) \<Rightarrow> nat \<Rightarrow> int \<Rightarrow> ieee \<Rightarrow> device \<Rightarrow> ('r \<Rightarrow> 'o) \<Rightarrow> worker \<Rightarrow> world
     \<Rightarrow> (error + ('o list \<times> int list \<times> int \<times> int) option) \<times> worker \<times> world" where
  "Worker_windowed_run model a max_winsize overlap_ratio dev chunk_hook s w =
     (let tnsr = heap w ! a;
          n = int (length (vals tnsr));
          winsize = min max_winsize n
      in case int_of_float_times_int overlap_ratio winsize of
           Inl e \<Rightarrow> (Inl e, s, w)
         | Inr overlap \<Rightarrow>
             (let stride = winsize - overlap;
                  b = length (heap w);
                  w1 = w\<lparr>heap := heap w @
                         [zeros_like (tnsr\<lparr>vals := py_slice (vals tnsr) None (Some winsize)\<rparr>) dev]\<rparr>
              in case py_range 0 n stride of
                   Inl e \<Rightarrow> (Inl e, s, w1)
                 | Inr window_range \<Rightarrow>
                     (let num_windows = int (length window_range)
                      in case Worker_windowed_run_loop model chunk_hook a b winsize num_windows
                                (py_enumerate1 window_range) [] s w1 of
                           (Inl e, s2, w2) \<Rightarrow> (Inl e, s2, w2)
                         | (Inr None, s2, w2) \<Rightarrow> (Inr None, s2, w2)
                         | (Inr (Some chunks), s2, w2) \<Rightarrow>
                             (Inr (Some (chunks, window_range, winsize, overlap)), s2, w2))))"

fun Worker_stt_merge_loop ::
  "rat \<Rightarrow> int \<Rightarrow> int \<Rightarrow> (int \<times> string) list \<Rightarrow> string \<Rightarrow> rat list \<Rightarrow> worker
     \<Rightarrow> (string \<times> rat list) option \<times> worker" where
  "Worker_stt_merge_loop thresh max_chars num_chunks [] merged match_scores s =
     (Some (merged, match_scores), s)"
| "Worker_stt_merge_loop thresh max_chars num_chunks ((i, ch) # rest) merged match_scores s =
     (let s1 = s\<lparr>abort_reads := Suc (abort_reads s)\<rparr>
      in if abort_seen s (abort_reads s) then (None, s1)
         else
           (let s2 = s1\<lparr>progress := progress s1 @ [(i, num_chunks)]\<rparr>
            in case merge_overlapping_strings merged ch thresh (Some max_chars) of
                 (merged', _, match_score) \<Rightarrow>
                   Worker_stt_merge_loop thresh max_chars num_chunks rest merged'
                     (match_scores @ [match_score]) s2))"

text \<open>
  Unpacking the result of \<open>self.windowed_run\<close> into four names raises \<open>TypeError\<close> when
  that result is \<open>None\<close>.
\<close>

definition Worker_windowed_stt_rendering ::
  "(tensor \<Rightarrow> string \<times> 'e) \<Rightarrow> nat \<Rightarrow> int \<Rightarrow> ieee \<Rightarrow> device \<Rightarrow> rat \<Rightarrow> int \<Rightarrow> worker \<Rightarrow> world
     \<Rightarrow> (error + (string \<times> rat list) option) \<times> worker \<times> world" where
  "Worker_windowed_stt_rendering model a max_winsize overlap_ratio dev overlap_merge_threshold
       max_overlap_characters s w =
     (case Worker_windowed_run model a max_winsize overlap_ratio dev fst s w of
        (Inl e, s1, w1) \<Rightarrow> (Inl e, s1, w1)
      | (Inr None, s1, w1) \<Rightarrow> (Inl TypeError, s1, w1)
      | (Inr (Some (chunks, begs, winsize, overlap)), s1, w1) \<Rightarrow>
          (case Worker_stt_merge_loop overlap_merge_threshold max_overlap_characters
                  (int (length chunks)) (py_enumerate1 chunks) [] [] s1 of
             (res, s2) \<Rightarrow> (Inr res, s2, w1)))"

text \<open>
  The end of \<open>WavToTextSileroWorker.run\<close>, from the call of
  \<open>self.windowed_stt_rendering\<close> on: the loading of the model and the preparation of the
  audio before it are calls into external libraries and are left out, so the callable,
  the reference of the prepared audio and \<open>max_win_samples\<close> are parameters. Unpacking
  the result into two names raises \<open>TypeError\<close> when it is \<open>None\<close>.
\<close>

definition OVERLAP_MERGE_THRESHOLD :: rat where
  "OVERLAP_MERGE_THRESHOLD = 9 / 10"

definition MAX_OVERLAP_CHARS :: int where
  "MAX_OVERLAP_CHARS = 1000"

definition Worker_run ::
  "(tensor \<Rightarrow> string \<times> 'e) \<Rightarrow> nat \<Rightarrow> int \<Rightarrow> ieee \<Rightarrow> device \<Rightarrow> worker \<Rightarrow> world
     \<Rightarrow> (error + string) \<times> worker \<times> world" where
  "Worker_run stt_model whole_audio max_win_samples win_overlap_ratio dev s w =
     (case Worker_windowed_stt_rendering stt_model whole_audio max_win_samples win_overlap_ratio
             dev OVERLAP_MERGE_THRESHOLD MAX_OVERLAP_CHARS s w of
        (Inl e, s1, w1) \<Rightarrow> (Inl e, s1, w1)
      | (Inr None, s1, w1) \<Rightarrow> (Inl TypeError, s1, w1)
      | (Inr (Some (whole_text, _)), s1, w1) \<Rightarrow> (Inr whole_text, s1, w1))"

section \<open>The batches of a run\<close>

text \<open>
  The content of the reused batch when the callable is invoked for the window at \<open>beg\<close>,
  given the batch as the previous iteration left it: the samples of the window, then the
  remaining samples of the previous content, each multiplied by zero. \<open>window_batches\<close>
  is the sequence of these contents along the start offsets. The loop of \<open>windowed_run\<close>
  is shown below to pass exactly these.
\<close>

definition window_batch :: "tensor \<Rightarrow> ieee list \<Rightarrow> int \<Rightarrow> int \<Rightarrow> tensor" where
  "window_batch batch xs winsize beg =
     (let chunk = py_slice xs (Some beg) (Some (beg + winsize))
      in batch\<lparr>vals := chunk @ drop (length chunk)
                                  (map (\<lambda>x. sample_mul x (Finite 0)) (vals batch))\<rparr>)"

fun window_batches :: "tensor \<Rightarrow> ieee list \<Rightarrow> int \<Rightarrow> int list \<Rightarrow> tensor list" where
  "window_batches batch xs winsize [] = []"
| "window_batches batch xs winsize (beg # begs) =
     window_batch batch xs winsize beg
       # window_batches (window_batch batch xs winsize beg) xs winsize begs"

text \<open>
  The batch as \<open>windowed_run\<close> allocates it, and the start offsets \<open>0, stride,
  2 * stride, ...\<close> below \<open>n\<close> that \<open>range(0, n, stride)\<close> yields for a positive
  stride.
\<close>

definition zero_batch :: "tensor \<Rightarrow> int \<Rightarrow> device \<Rightarrow> tensor" where
  "zero_batch tnsr winsize dev =
     zeros_like (tnsr\<lparr>vals := py_slice (vals tnsr) None (Some winsize)\<rparr>) dev"

definition window_starts :: "int \<Rightarrow> int \<Rightarrow> int list" where
  "window_starts n stride = map (\<lambda>k. int k * stride) [0..<nat ((n - 1) div stride + 1)]"

section \<open>Concrete inputs\<close>

text \<open>A five-sample signal and a state that holds only it, for evaluating the engine.\<close>

definition example_signal :: tensor where
  "example_signal = \<lparr>vals = [Finite 1, Finite 2, Finite 3, Finite 4, Finite 5],
                      dtype = Float32, device = ''cpu''\<rparr>"

definition example_world :: world where
  "example_world = \<lparr>heap = [example_signal], model_calls = []\<rparr>"

text \<open>The same signal with an infinite fourth sample.\<close>

definition inf_world :: world where
  "inf_world = \<lparr>heap = [\<lparr>vals = [Finite 1, Finite 2, Finite 3, PosInf, Finite 5],
                           dtype = Float32, device = ''cpu''\<rparr>],
                 model_calls = []\<rparr>"

text \<open>
  A signal of five NaNs: what \<open>read_audio\<close> returns for a constant recording, whose
  normalisation divides zeros by their maximum, zero.
\<close>

definition nan_world :: world where
  "nan_world = \<lparr>heap = [\<lparr>vals = replicate 5 NaN, dtype = Float32, device = ''cpu''\<rparr>],
                 model_calls = []\<rparr>"

text \<open>A state that holds only the signal \<open>0, 1, ..., n - 1\<close>.\<close>

definition ramp_world :: "nat \<Rightarrow> world" where
  "ramp_world n = \<lparr>heap = [\<lparr>vals = map (\<lambda>i. Finite (of_nat i)) [0..<n],
                              dtype = Float32, device = ''cpu''\<rparr>],
                    model_calls = []\<rparr>"

text \<open>
  The doubles nearest to 0.7 and to 0.58, as the literals \<open>0.7\<close> and \<open>0.58\<close> denote
  them.
\<close>

definition double_0_7 :: rat where
  "double_0_7 = 3152519739159347 / 4503599627370496"

definition double_0_58 :: rat where
  "double_0_58 = 5224175567749775 / 9007199254740992"

text \<open>An all-ones chunk of five samples.\<close>

definition ones5 :: tensor where
  "ones5 = \<lparr>vals = replicate 5 (Finite 1), dtype = Float32, device = ''cpu''\<rparr>"

text \<open>A two-sample signal, and workers whose abort flag is never set, or set from a given read on.\<close>

definition short_world :: world where
  "short_world = \<lparr>heap = [\<lparr>vals = [Finite 1, Finite 2], dtype = Float32, device = ''cpu''\<rparr>],
                   model_calls = []\<rparr>"

definition worker_aborting_from :: "nat \<Rightarrow> worker" where
  "worker_aborting_from k = \<lparr>abort_seen = (\<lambda>j. k \<le> j), abort_reads = 0, progress = []\<rparr>"

definition worker_running :: worker where
  "worker_running = \<lparr>abort_seen = (\<lambda>j. False), abort_reads = 0, progress = []\<rparr>"

section \<open>Theorems\<close>

subsection \<open>Rounding to a double\<close>

lemma floor_log2_lower:
  assumes "0 < a"
  shows "2 powi (floor_log2 a) \<le> a"
proof -
  obtain p q where pq: "quotient_of a = (p, q)" by (cases "quotient_of a")
  have q: "0 < q" using quotient_of_denom_pos[OF pq] .
  have a: "a = of_int p / of_int q" using quotient_of_div[OF pq] .
  have p: "0 < p" using assms q unfolding a by (simp add: zero_less_divide_iff)
  define e0 where "e0 = bitlen p - bitlen q"
  have bp: "2 ^ nat (bitlen p - 1) \<le> p" and bq: "q < 2 ^ nat (bitlen q)"
    using bitlen_bounds[OF p] bitlen_bounds[OF q] by simp_all
  have bp1: "1 \<le> bitlen p" using p by (simp add: bitlen_alt_def)
  have bq0: "0 \<le> bitlen q" by (rule bitlen_nonneg)
  have lo: "(2::rat) powi (e0 - 1) \<le> a"
  proof -
    have e1: "e0 - 1 = (bitlen p - 1) - bitlen q" by (simp add: e0_def)
    have "(2::rat) powi (e0 - 1) = 2 powi (bitlen p - 1) / 2 powi (bitlen q)"
      unfolding e1 by (rule power_int_diff) simp
    also have "\<dots> = 2 ^ nat (bitlen p - 1) / 2 ^ nat (bitlen q)"
      using bp1 bq0 by (simp add: power_int_nonneg_exp)
    also have "\<dots> \<le> of_int p / 2 ^ nat (bitlen q)"
    proof (rule divide_right_mono)
      have "(of_int (2 ^ nat (bitlen p - 1)) :: rat) \<le> of_int p"
        using bp by (simp only: of_int_le_iff)
      then show "(2::rat) ^ nat (bitlen p - 1) \<le> of_int p" by simp
    qed simp
    also have "\<dots> \<le> of_int p / of_int q"
    proof (rule divide_left_mono)
      have "(of_int q :: rat) < of_int (2 ^ nat (bitlen q))"
        using bq by (simp only: of_int_less_iff)
      then show "(of_int q :: rat) \<le> 2 ^ nat (bitlen q)" by simp
      show "(0::rat) \<le> of_int p" using p by simp
      show "(0::rat) < 2 ^ nat (bitlen q) * of_int q" using q by simp
    qed
    finally show ?thesis unfolding a .
  qed
  show ?thesis
    unfolding floor_log2_def pq prod.case Let_def e0_def[symmetric]
    using lo by simp
qed

lemma floor_log2_less:
  assumes "0 < a" "a < 2 ^ k"
  shows "floor_log2 a < int k"
proof (rule ccontr)
  assume "\<not> floor_log2 a < int k"
  then have "int k \<le> floor_log2 a" by simp
  then have "(2::rat) powi (int k) \<le> 2 powi (floor_log2 a)"
    by (intro power_int_increasing) simp_all
  also have "\<dots> \<le> a" by (rule floor_log2_lower[OF assms(1)])
  finally show False using assms(2) by simp
qed

lemma floor_log2_zero: "floor_log2 0 = - 2"
  by code_simp

lemma round_half_even_of_int: "round_half_even (of_int i) = i"
  by (simp add: round_half_even_def)

lemma round_half_even_nonneg: "0 \<le> m \<Longrightarrow> 0 \<le> round_half_even m"
  by (simp add: round_half_even_def Let_def)

lemma round_half_even_ge: "of_int i \<le> m \<Longrightarrow> i \<le> round_half_even m"
proof -
  assume "of_int i \<le> m"
  then have "i \<le> \<lfloor>m\<rfloor>" by (simp add: le_floor_iff)
  then show ?thesis by (simp add: round_half_even_def Let_def)
qed

lemma round_half_even_le: "m \<le> of_int i \<Longrightarrow> round_half_even m \<le> i"
proof -
  assume le: "m \<le> of_int i"
  show ?thesis
  proof (cases "m = of_int i")
    case True
    then show ?thesis by (simp add: round_half_even_of_int)
  next
    case False
    with le have "m < of_int i" by simp
    then have "\<lfloor>m\<rfloor> < i" by (simp add: floor_less_iff)
    then show ?thesis by (simp add: round_half_even_def Let_def)
  qed
qed

lemma round_half_even_below:
  assumes "m < of_int i - 1 / 2"
  shows "round_half_even m \<le> i - 1"
proof -
  define f where "f = \<lfloor>m\<rfloor>"
  have fm: "of_int f \<le> m" "m < of_int f + 1"
    using floor_correct[of m] by (simp_all add: f_def)
  have "(of_int f :: rat) < of_int i" using fm(1) assms by linarith
  then have fi: "f \<le> i - 1" by simp
  show ?thesis
  proof (cases "m - of_int f < 1 / 2")
    case True
    then show ?thesis using fi by (simp add: round_half_even_def Let_def f_def[symmetric])
  next
    case False
    then have "(of_int f :: rat) + 1 < of_int i" using assms by linarith
    then have "(of_int (f + 1) :: rat) < of_int i" by simp
    then have "f + 1 < i" by (simp only: of_int_less_iff)
    then show ?thesis by (simp add: round_half_even_def Let_def f_def[symmetric])
  qed
qed

text \<open>
  The quantum of a positive \<open>x\<close> below \<open>2 ^ 53\<close> is a power of two not above 1, so every
  integer is a multiple of it.
\<close>

lemma quantum_divides_int:
  assumes "e \<le> 52"
  shows "of_int (i * 2 ^ nat (52 - e)) * (2::rat) powi (e - 52) = of_int i"
proof -
  have "(2::rat) powi (e - 52) = 1 / 2 powi (52 - e)"
    using power_int_minus_divide[of "2::rat" "52 - e"] by simp
  also have "(2::rat) powi (52 - e) = 2 ^ nat (52 - e)"
    using assms by (simp add: power_int_nonneg_exp)
  finally show ?thesis by simp
qed

lemma double_below_one:
  assumes "is_double r" "r < 1"
  shows "r \<le> 1 - 1 / 2 ^ 53"
proof -
  obtain m e where r: "r = of_int m * 2 powi e" and m: "\<bar>m\<bar> < 2 ^ 53" and e: "- 1074 \<le> e"
    using assms(1) unfolding is_double_def by blast
  show ?thesis
  proof (cases "- 53 \<le> e")
    case True
    have "r * 2 ^ 53 = of_int m * (2 powi e * 2 powi 53)" by (simp add: r)
    also have "2 powi e * (2::rat) powi 53 = 2 powi (e + 53)"
      by (simp add: power_int_add)
    also have "\<dots> = 2 ^ nat (e + 53)" using True by (simp add: power_int_nonneg_exp)
    finally have i: "r * 2 ^ 53 = of_int (m * 2 ^ nat (e + 53))" by simp
    have "r * 2 ^ 53 < 1 * 2 ^ 53" using assms(2) by (intro mult_strict_right_mono) simp_all
    then have "(of_int (m * 2 ^ nat (e + 53)) :: rat) < of_int (2 ^ 53)" unfolding i by simp
    then have "m * 2 ^ nat (e + 53) < 2 ^ 53" by (simp only: of_int_less_iff)
    then have "m * 2 ^ nat (e + 53) \<le> 2 ^ 53 - 1" by simp
    then have "(of_int (m * 2 ^ nat (e + 53)) :: rat) \<le> of_int (2 ^ 53 - 1)"
      by (simp only: of_int_le_iff)
    then have "r * 2 ^ 53 \<le> 2 ^ 53 - 1" unfolding i by simp
    then have "r \<le> (2 ^ 53 - 1) / 2 ^ 53" by (simp add: pos_le_divide_eq)
    then show ?thesis by (simp add: diff_divide_distrib)
  next
    case False
    then have e54: "e \<le> - 54" by simp
    have p: "(2::rat) powi e \<le> 2 powi (- 54)"
      using e54 by (intro power_int_increasing) simp_all
    have "r \<le> \<bar>of_int m\<bar> * 2 powi e" unfolding r by (simp add: abs_mult[symmetric] flip: abs_mult)
    also have "\<dots> \<le> 2 ^ 53 * 2 powi e"
    proof (rule mult_right_mono)
      have "(of_int \<bar>m\<bar> :: rat) < of_int (2 ^ 53)" using m by (simp only: of_int_less_iff)
      then show "\<bar>of_int m :: rat\<bar> \<le> 2 ^ 53" by simp
    qed simp
    also have "\<dots> \<le> 2 ^ 53 * 2 powi (- 54)"
      using p by (intro mult_left_mono) simp_all
    also have "\<dots> = 1 / 2" by (simp add: power_int_minus_divide)
    finally show ?thesis by simp
  qed
qed

text \<open>
  Rounding a positive \<open>x\<close> below \<open>2 ^ 53\<close>: no overflow, and the result lies between
  the integers around \<open>x\<close>, which are doubles themselves.
\<close>

lemma round_double_pos:
  assumes x: "0 < x" "x < 2 ^ 53"
  obtains e where "e \<le> 52" and "2 powi e \<le> x \<or> e = - 1022"
    and "round_double x
           = Some (of_int (round_half_even (x / 2 powi (e - 52))) * 2 powi (e - 52))"
    and "of_int \<lfloor>x\<rfloor>
           \<le> of_int (round_half_even (x / 2 powi (e - 52))) * (2::rat) powi (e - 52)"
    and "of_int (round_half_even (x / 2 powi (e - 52))) * (2::rat) powi (e - 52)
           \<le> of_int \<lceil>x\<rceil>"
proof -
  define e where "e = max (floor_log2 x) (- 1022)"
  define q where "q = (2::rat) powi (e - 52)"
  define n where "n = round_half_even (x / q)"
  define y where "y = of_int n * q"
  have fl: "floor_log2 x < 53" using floor_log2_less[OF x] by simp
  have e52: "e \<le> 52" using fl by (simp add: e_def)
  have elow: "2 powi e \<le> x \<or> e = - 1022"
    using floor_log2_lower[OF x(1)] by (auto simp: e_def max_def)
  have q0: "0 < q" by (simp add: q_def)
  have mult: "of_int (i * 2 ^ nat (52 - e)) * q = of_int i" for i
    unfolding q_def by (rule quantum_divides_int[OF e52])
  have lo: "of_int \<lfloor>x\<rfloor> \<le> y"
  proof -
    have "of_int (\<lfloor>x\<rfloor> * 2 ^ nat (52 - e)) * q \<le> x" unfolding mult by simp
    then have "of_int (\<lfloor>x\<rfloor> * 2 ^ nat (52 - e)) \<le> x / q"
      using q0 by (simp add: pos_le_divide_eq)
    then have "\<lfloor>x\<rfloor> * 2 ^ nat (52 - e) \<le> n" unfolding n_def by (rule round_half_even_ge)
    then have "(of_int (\<lfloor>x\<rfloor> * 2 ^ nat (52 - e)) :: rat) \<le> of_int n"
      by (simp only: of_int_le_iff)
    then have "of_int (\<lfloor>x\<rfloor> * 2 ^ nat (52 - e)) * q \<le> of_int n * q"
      using q0 by (intro mult_right_mono) simp_all
    then show ?thesis unfolding mult y_def .
  qed
  have hi: "y \<le> of_int \<lceil>x\<rceil>"
  proof -
    have "x \<le> of_int (\<lceil>x\<rceil> * 2 ^ nat (52 - e)) * q" unfolding mult by simp
    then have "x / q \<le> of_int (\<lceil>x\<rceil> * 2 ^ nat (52 - e))"
      using q0 by (simp add: pos_divide_le_eq)
    then have "n \<le> \<lceil>x\<rceil> * 2 ^ nat (52 - e)" unfolding n_def by (rule round_half_even_le)
    then have "(of_int n :: rat) \<le> of_int (\<lceil>x\<rceil> * 2 ^ nat (52 - e))"
      by (simp only: of_int_le_iff)
    then have "of_int n * q \<le> of_int (\<lceil>x\<rceil> * 2 ^ nat (52 - e)) * q"
      using q0 by (intro mult_right_mono) simp_all
    then show ?thesis unfolding mult y_def .
  qed
  have y0: "0 \<le> y"
  proof -
    have "(0::rat) \<le> of_int \<lfloor>x\<rfloor>" using x(1) by simp
    then show ?thesis using lo by linarith
  qed
  have noov: "\<not> 1024 \<le> floor_log2 y"
  proof (cases "y = 0")
    case True
    then show ?thesis by (simp add: floor_log2_zero)
  next
    case False
    then have yp: "0 < y" using y0 by simp
    have "\<lceil>x\<rceil> \<le> 2 ^ 53" using x(2) by (simp add: ceiling_le_iff)
    then have "(of_int \<lceil>x\<rceil> :: rat) \<le> of_int (2 ^ 53)" by (simp only: of_int_le_iff)
    with hi have "y \<le> of_int (2 ^ 53)" by (rule order_trans)
    then have "y \<le> 2 ^ 53" by simp
    then have "y < 2 ^ 54" by (rule le_less_trans) simp
    then have "floor_log2 y < 54" using floor_log2_less[OF yp, of 54] by simp
    then show ?thesis by simp
  qed
  have xs: "\<bar>x\<bar> = x" "sgn x = 1" "x \<noteq> 0" using x(1) by simp_all
  have rd: "round_double x = Some y"
    unfolding round_double_def Let_def xs e_def[symmetric] q_def[symmetric] n_def[symmetric]
      y_def[symmetric]
    using noov x(1) by simp
  show ?thesis
    by (rule that[of e])
       (rule e52, rule elow, rule rd[unfolded y_def n_def q_def],
        rule lo[unfolded y_def n_def q_def], rule hi[unfolded y_def n_def q_def])
qed

lemma round_double_int:
  assumes w: "1 \<le> w" "w < 2 ^ 53"
  shows "round_double (of_int w) = Some (of_int w)"
proof -
  have p: "(0::rat) < of_int w" using w(1) by simp
  have "(of_int w :: rat) < of_int (2 ^ 53)" using w(2) by (simp only: of_int_less_iff)
  then have b: "(of_int w :: rat) < 2 ^ 53" by simp
  obtain e where
    rd: "round_double (of_int w)
           = Some (of_int (round_half_even (of_int w / 2 powi (e - 52))) * 2 powi (e - 52))"
    and lo: "of_int \<lfloor>of_int w :: rat\<rfloor>
               \<le> of_int (round_half_even (of_int w / 2 powi (e - 52))) * (2::rat) powi (e - 52)"
    and hi: "of_int (round_half_even (of_int w / 2 powi (e - 52))) * (2::rat) powi (e - 52)
               \<le> of_int \<lceil>of_int w :: rat\<rceil>"
    using round_double_pos[OF p b] by blast
  have "of_int (round_half_even (of_int w / 2 powi (e - 52))) * (2::rat) powi (e - 52) = of_int w"
    using lo hi by simp
  then show ?thesis unfolding rd by simp
qed

text \<open>
  The product of a double in \<open>[0, 1)\<close> and an integer \<open>w\<close> with \<open>1 \<le> w < 2 ^ 53\<close>,
  rounded to a double, is below \<open>w\<close>: the ratio is at most \<open>1 - 2 ^ (- 53)\<close>, so the
  exact product stays more than half a quantum below \<open>w\<close>.
\<close>

lemma round_double_product:
  assumes w: "1 \<le> w" "w < 2 ^ 53" and r: "is_double r" "0 \<le> r" "r < 1"
  shows "\<exists>v. round_double (r * of_int w) = Some v \<and> 0 \<le> v \<and> v < of_int w
              \<and> of_int \<lfloor>r * of_int w\<rfloor> \<le> v \<and> v \<le> of_int \<lceil>r * of_int w\<rceil>"
proof (cases "r = 0")
  case True
  then show ?thesis using w(1) by (simp add: round_double_def)
next
  case False
  define x where "x = r * of_int w"
  have wp: "(0::rat) < of_int w" using w(1) by simp
  have xp: "0 < x" using False r(2) wp by (simp add: x_def)
  have xw: "x < of_int w"
    unfolding x_def using mult_strict_right_mono[OF r(3) wp] by simp
  have "(of_int w :: rat) < of_int (2 ^ 53)" using w(2) by (simp only: of_int_less_iff)
  then have wb: "(of_int w :: rat) < 2 ^ 53" by simp
  have xb: "x < 2 ^ 53" using xw wb by (rule less_trans)
  obtain e where e52: "e \<le> 52" and elow: "2 powi e \<le> x \<or> e = - 1022"
    and rd: "round_double x
           = Some (of_int (round_half_even (x / 2 powi (e - 52))) * 2 powi (e - 52))"
    and lo: "of_int \<lfloor>x\<rfloor>
               \<le> of_int (round_half_even (x / 2 powi (e - 52))) * (2::rat) powi (e - 52)"
    and hi: "of_int (round_half_even (x / 2 powi (e - 52))) * (2::rat) powi (e - 52)
               \<le> of_int \<lceil>x\<rceil>"
    using round_double_pos[OF xp xb] by blast
  define q where "q = (2::rat) powi (e - 52)"
  define n where "n = round_half_even (x / q)"
  define W where "W = w * 2 ^ nat (52 - e)"
  have q0: "0 < q" by (simp add: q_def)
  have Wq: "of_int W * q = of_int w"
    unfolding W_def q_def by (rule quantum_divides_int[OF e52])
  have ew: "(2::rat) powi e < of_int w"
  proof (cases "2 powi e \<le> x")
    case True
    then show ?thesis using xw by simp
  next
    case False
    with elow have "e = - 1022" by simp
    then have "(2::rat) powi e < 2 powi 0" by (intro power_int_strict_increasing) simp_all
    then have "(2::rat) powi e < 1" by simp
    also have "(1::rat) \<le> of_int w" using w(1) by simp
    finally show ?thesis .
  qed
  have half: "q / 2 = 2 powi e / 2 ^ 53"
  proof -
    have "e - 52 = e - 53 + 1" by simp
    have "(2::rat) powi (e - 52) = 2 powi e / 2 powi 52"
      by (rule power_int_diff) simp
    then show ?thesis by (simp add: q_def)
  qed
  have gap: "q / 2 < of_int w - x"
  proof -
    have "1 / 2 ^ 53 \<le> 1 - r" using double_below_one[OF r(1,3)] by simp
    then have "of_int w * (1 / 2 ^ 53) \<le> of_int w * (1 - r)"
      using wp by (intro mult_left_mono) simp_all
    moreover have "q / 2 < of_int w * (1 / 2 ^ 53)"
      unfolding half using ew by (simp add: divide_strict_right_mono)
    moreover have "of_int w * (1 - r) = of_int w - x" by (simp add: x_def algebra_simps)
    ultimately show ?thesis by simp
  qed
  have "x < of_int W * q - q / 2" unfolding Wq using gap by simp
  then have "x < (of_int W - 1 / 2) * q" by (simp add: algebra_simps)
  then have "x / q < of_int W - 1 / 2" using q0 by (simp add: pos_divide_less_eq)
  then have "n \<le> W - 1" unfolding n_def by (rule round_half_even_below)
  then have "(of_int n :: rat) \<le> of_int (W - 1)" by (simp only: of_int_le_iff)
  then have "of_int n * q \<le> of_int (W - 1) * q"
    using q0 by (intro mult_right_mono) simp_all
  also have "\<dots> = of_int w - q" using Wq by (simp add: algebra_simps)
  also have "\<dots> < of_int w" using q0 by simp
  finally have up: "of_int n * q < of_int w" .
  have nn: "0 \<le> of_int n * q"
  proof -
    have "(0::rat) \<le> of_int \<lfloor>x\<rfloor>" using xp by simp
    then show ?thesis using lo unfolding n_def q_def by linarith
  qed
  show ?thesis
    unfolding x_def[symmetric]
    by (intro exI conjI)
       (rule rd[folded q_def, folded n_def], rule nn, rule up,
        rule lo[folded q_def, folded n_def], rule hi[folded q_def, folded n_def])
qed

text \<open>
  \<open>int(overlap_ratio * winsize)\<close> for a double ratio in \<open>[0, 1)\<close> and a window size
  from 1 to below \<open>2 ^ 53\<close> returns an overlap in \<open>[0, winsize)\<close>; it is the floor of
  the exact product or one more.
\<close>

lemma valid_overlap:
  assumes w: "1 \<le> winsize" "winsize < 2 ^ 53" and r: "is_double r" "0 \<le> r" "r < 1"
  shows "\<exists>overlap. int_of_float_times_int (Finite r) winsize = Inr overlap
           \<and> 0 \<le> overlap \<and> overlap < winsize
           \<and> \<lfloor>r * of_int winsize\<rfloor> \<le> overlap \<and> overlap \<le> \<lfloor>r * of_int winsize\<rfloor> + 1"
proof -
  obtain v where rd: "round_double (r * of_int winsize) = Some v"
    and v0: "0 \<le> v" and vw: "v < of_int winsize"
    and lo: "of_int \<lfloor>r * of_int winsize\<rfloor> \<le> v" and hi: "v \<le> of_int \<lceil>r * of_int winsize\<rceil>"
    using round_double_product[OF w r] by blast
  have fl: "py_float winsize = Inr (Finite (of_int winsize))"
    by (simp add: py_float_def round_double_int[OF w])
  have "int_of_float_times_int (Finite r) winsize = Inr \<lfloor>v\<rfloor>"
    using v0 by (simp add: int_of_float_times_int_def fl float_mul_def rd py_int_def)
  moreover have "0 \<le> \<lfloor>v\<rfloor>" using v0 by simp
  moreover have "\<lfloor>v\<rfloor> < winsize" using vw by (simp add: floor_less_iff)
  moreover have "\<lfloor>r * of_int winsize\<rfloor> \<le> \<lfloor>v\<rfloor>" using lo by (simp add: le_floor_iff)
  moreover have "\<lfloor>v\<rfloor> \<le> \<lfloor>r * of_int winsize\<rfloor> + 1"
  proof -
    have "\<lfloor>v\<rfloor> \<le> \<lceil>r * of_int winsize\<rceil>" using hi by (simp add: floor_le_iff)
    moreover have "\<lceil>r * of_int winsize\<rceil> \<le> \<lfloor>r * of_int winsize\<rfloor> + 1"
      using ceiling_diff_floor_le_1[of "r * of_int winsize"] by linarith
    ultimately show ?thesis by linarith
  qed
  ultimately show ?thesis by blast
qed

lemma is_double_examples:
  "is_double 0" "is_double (1 / 2)" "is_double (1 / 4)" "is_double double_0_7"
  "is_double double_0_58"
proof -
  show "is_double 0" unfolding is_double_def
    by (rule exI[of _ 0], rule exI[of _ 0]) simp
  show "is_double (1 / 2)" unfolding is_double_def
    by (rule exI[of _ 1], rule exI[of _ "- 1"]) (simp add: power_int_minus_divide)
  show "is_double (1 / 4)" unfolding is_double_def
    by (rule exI[of _ 1], rule exI[of _ "- 2"]) (simp add: power_int_minus_divide)
  show "is_double double_0_7" unfolding is_double_def double_0_7_def
    by (rule exI[of _ 3152519739159347], rule exI[of _ "- 52"])
       (simp add: power_int_minus_divide)
  show "is_double double_0_58" unfolding is_double_def double_0_58_def
    by (rule exI[of _ 5224175567749775], rule exI[of _ "- 53"])
       (simp add: power_int_minus_divide)
qed

lemma floor_log2_upper:
  assumes "0 < a"
  shows "a < 2 powi (floor_log2 a + 1)"
proof -
  obtain p q where pq: "quotient_of a = (p, q)" by (cases "quotient_of a")
  have q: "0 < q" using quotient_of_denom_pos[OF pq] .
  have a: "a = of_int p / of_int q" using quotient_of_div[OF pq] .
  have p: "0 < p" using assms q unfolding a by (simp add: zero_less_divide_iff)
  define e0 where "e0 = bitlen p - bitlen q"
  have bp: "p < 2 ^ nat (bitlen p)" and bq: "2 ^ nat (bitlen q - 1) \<le> q"
    using bitlen_bounds[OF p] bitlen_bounds[OF q] by simp_all
  have bp0: "0 \<le> bitlen p" by (rule bitlen_nonneg)
  have bq1: "1 \<le> bitlen q" using q by (simp add: bitlen_alt_def)
  have up: "a < (2::rat) powi (e0 + 1)"
  proof -
    have "of_int p / of_int q < (2::rat) ^ nat (bitlen p) / of_int q"
    proof (rule divide_strict_right_mono)
      have "(of_int p :: rat) < of_int (2 ^ nat (bitlen p))"
        using bp by (simp only: of_int_less_iff)
      then show "(of_int p :: rat) < 2 ^ nat (bitlen p)" by simp
      show "(0::rat) < of_int q" using q by simp
    qed
    also have "\<dots> \<le> 2 ^ nat (bitlen p) / 2 ^ nat (bitlen q - 1)"
    proof (rule divide_left_mono)
      have "(of_int (2 ^ nat (bitlen q - 1)) :: rat) \<le> of_int q"
        using bq by (simp only: of_int_le_iff)
      then show "(2::rat) ^ nat (bitlen q - 1) \<le> of_int q" by simp
      show "(0::rat) \<le> 2 ^ nat (bitlen p)" by simp
      show "(0::rat) < of_int q * 2 ^ nat (bitlen q - 1)" using q by simp
    qed
    also have "\<dots> = 2 powi (bitlen p) / 2 powi (bitlen q - 1)"
      using bp0 bq1 by (simp add: power_int_nonneg_exp)
    also have "\<dots> = 2 powi (bitlen p - (bitlen q - 1))"
      by (rule power_int_diff[symmetric]) simp
    also have "bitlen p - (bitlen q - 1) = e0 + 1" by (simp add: e0_def)
    finally show ?thesis unfolding a .
  qed
  show ?thesis
  proof (cases "2 powi e0 \<le> a")
    case True
    then have "floor_log2 a = e0"
      unfolding floor_log2_def pq prod.case Let_def e0_def[symmetric] by simp
    then show ?thesis using up by simp
  next
    case False
    then have "floor_log2 a = e0 - 1"
      unfolding floor_log2_def pq prod.case Let_def e0_def[symmetric] by simp
    then show ?thesis using False by simp
  qed
qed

lemma floor_log2_ge:
  assumes "0 < a" "2 powi k \<le> a"
  shows "k \<le> floor_log2 a"
proof (rule ccontr)
  assume "\<not> k \<le> floor_log2 a"
  then have "floor_log2 a + 1 \<le> k" by simp
  then have "(2::rat) powi (floor_log2 a + 1) \<le> 2 powi k"
    by (intro power_int_increasing) simp_all
  then show False using floor_log2_upper[OF assms(1)] assms(2) by simp
qed

text \<open>A magnitude of \<open>2 ^ 1024\<close> or more is beyond the doubles.\<close>

lemma round_double_overflow:
  assumes "2 ^ 1024 \<le> \<bar>x\<bar>"
  shows "round_double x = None"
proof -
  define a where "a = \<bar>x\<bar>"
  define e where "e = max (floor_log2 a) (- 1022)"
  define q where "q = (2::rat) powi (e - 52)"
  define y where "y = of_int (round_half_even (a / q)) * q"
  have big: "(2::rat) powi 1024 \<le> a" using assms by (simp add: a_def)
  have a0: "0 < a" by (rule less_le_trans[OF _ big]) simp
  have fl: "1024 \<le> floor_log2 a" by (rule floor_log2_ge[OF a0 big])
  have e: "e = floor_log2 a" using fl by (simp add: e_def)
  have q0: "0 < q" by (simp add: q_def)
  have pe: "(2::rat) powi e \<le> a" unfolding e by (rule floor_log2_lower[OF a0])
  have eq: "of_int (2 ^ 52) * q = (2::rat) powi e"
  proof -
    have "(2::rat) powi (e - 52) = 2 powi e / 2 powi 52" by (rule power_int_diff) simp
    then show ?thesis by (simp add: q_def)
  qed
  have "of_int (2 ^ 52) * q \<le> a" unfolding eq by (rule pe)
  then have "of_int (2 ^ 52) \<le> a / q" using q0 by (simp add: pos_le_divide_eq)
  then have "2 ^ 52 \<le> round_half_even (a / q)" by (rule round_half_even_ge)
  then have "(of_int (2 ^ 52) :: rat) \<le> of_int (round_half_even (a / q))"
    by (simp only: of_int_le_iff)
  then have "of_int (2 ^ 52) * q \<le> y"
    unfolding y_def using q0 by (intro mult_right_mono) simp_all
  then have ey: "(2::rat) powi e \<le> y" unfolding eq .
  have y0: "0 < y" by (rule less_le_trans[OF _ ey]) simp
  have "e \<le> floor_log2 y" by (rule floor_log2_ge[OF y0 ey])
  then have ov: "1024 \<le> floor_log2 y" using fl e by simp
  have x0: "x \<noteq> 0" using a0 by (auto simp: a_def)
  show ?thesis
    unfolding round_double_def Let_def a_def[symmetric] e_def[symmetric] q_def[symmetric]
      y_def[symmetric]
    using x0 ov by simp
qed

text \<open>A finite product beyond the range of a double: \<open>2 ^ 1023\<close> times 3.\<close>

lemma overlap_overflow: "int_of_float_times_int (Finite (2 ^ 1023)) 3 = Inl OverflowError"
proof -
  have f: "py_float 3 = Inr (Finite 3)"
    using round_double_int[of 3] by (simp add: py_float_def)
  have "(2::rat) ^ 1024 = 2 * 2 ^ 1023" by simp
  also have "\<dots> \<le> \<bar>2 ^ 1023 * 3\<bar>" by simp
  finally have "round_double (2 ^ 1023 * 3) = None" by (rule round_double_overflow)
  then have "float_mul (Finite (2 ^ 1023)) (Finite 3) = PosInf"
    by (simp add: float_mul_def ieee_sgn_def inf_of_sign_def)
  then show ?thesis
    by (simp add: int_of_float_times_int_def f py_int_def)
qed

subsection \<open>Slices and ranges\<close>

lemma py_slice_unfold:
  "py_slice xs s e =
     take ((case e of None \<Rightarrow> length xs | Some j \<Rightarrow> py_index (length xs) j)
           - (case s of None \<Rightarrow> 0 | Some i \<Rightarrow> py_index (length xs) i))
       (drop (case s of None \<Rightarrow> 0 | Some i \<Rightarrow> py_index (length xs) i) xs)"
  by (simp add: py_slice_def Let_def)

lemma py_slice_neg_suffix:
  "py_slice xs (Some (- int i)) None = (if i = 0 then xs else drop (length xs - i) xs)"
  by (auto simp: py_slice_unfold py_index_def nat_diff_distrib' max_def)

lemma py_slice_prefix: "py_slice xs None (Some (int i)) = take i xs"
  by (cases "i \<le> length xs") (simp_all add: py_slice_unfold py_index_def min_def)

lemma py_slice_from: "py_slice xs (Some (int i)) None = drop i xs"
  by (cases "i \<le> length xs") (simp_all add: py_slice_unfold py_index_def min_def)

lemma set_py_slice: "set (py_slice xs s e) \<subseteq> set xs"
  unfolding py_slice_unfold
  by (rule subset_trans[OF set_take_subset set_drop_subset])

lemma py_index_le: "py_index n i \<le> n"
  by (auto simp: py_index_def max_def)

lemma py_index_diff:
  "0 \<le> beg \<Longrightarrow> py_index n (beg + ws) - py_index n beg \<le> py_index n ws"
  by (auto simp: py_index_def max_def min_def)

lemma py_index_nonneg: "0 \<le> i \<Longrightarrow> py_index n i = min (nat i) n"
  by (simp add: py_index_def)

lemma py_range1_Suc: "py_range1 (int (Suc n)) = py_range1 (int n) @ [int n]"
  unfolding py_range1_def nat_int by simp

subsection \<open>The fuzzy merge\<close>

lemma overlap_score_nat:
  "overlap_score str1 str2 (int i) =
     Levenshtein_ratio (if i = 0 then str1 else drop (length str1 - i) str1) (take i str2)"
  unfolding overlap_score_def py_slice_neg_suffix py_slice_prefix by simp

text \<open>
  The loop keeps the last candidate that reached the threshold: after the candidates
  \<open>0, ..., n - 1\<close> the state is the initial one when none qualified, and the largest
  qualifying candidate with its score otherwise.
\<close>

lemma foldl_merge_step:
  "foldl (merge_step str1 str2 thresh) st (py_range1 (int n)) =
     (if {i. i < n \<and> thresh \<le> overlap_score str1 str2 (int i)} = {} then st
      else (int (Max {i. i < n \<and> thresh \<le> overlap_score str1 str2 (int i)}),
            overlap_score str1 str2
              (int (Max {i. i < n \<and> thresh \<le> overlap_score str1 str2 (int i)}))))"
proof (induction n)
  case 0
  show ?case by (simp add: py_range1_def)
next
  case (Suc n)
  let ?Q = "\<lambda>n. {i. i < n \<and> thresh \<le> overlap_score str1 str2 (int i)}"
  have fin: "finite (?Q n)" by simp
  have step: "foldl (merge_step str1 str2 thresh) st (py_range1 (int (Suc n))) =
      merge_step str1 str2 thresh
        (foldl (merge_step str1 str2 thresh) st (py_range1 (int n))) (int n)"
    unfolding py_range1_Suc by simp
  show ?case
  proof (cases "thresh \<le> overlap_score str1 str2 (int n)")
    case True
    then have Q: "?Q (Suc n) = insert n (?Q n)" by (auto simp: less_Suc_eq)
    have mx: "Max (?Q (Suc n)) = n"
      unfolding Q by (rule Max_eqI) (use fin in auto)
    have ne: "?Q (Suc n) \<noteq> {}" unfolding Q by simp
    have "?thesis = (merge_step str1 str2 thresh
        (foldl (merge_step str1 str2 thresh) st (py_range1 (int n))) (int n)
          = (int n, overlap_score str1 str2 (int n)))"
      unfolding step by (simp only: ne mx if_False)
    then show ?thesis using True by (simp add: merge_step_def)
  next
    case False
    then have Q: "?Q (Suc n) = ?Q n" by (auto simp: less_Suc_eq)
    show ?thesis
      unfolding step Q Suc.IH using False by (simp add: merge_step_def)
  qed
qed

text \<open>
  The model of \<open>Levenshtein.ratio\<close> gives the score of the example in the docstring of
  \<open>merge_overlapping_strings\<close> (the overlap of length 6 of \<open>"123456789"\<close> and
  \<open>"778899abcdef"\<close>, scored 0.5).
\<close>

lemma docstring_example_score: "Levenshtein_ratio ''456789'' ''778899'' = 1 / 2"
  by code_simp

lemma merge_abc_def_value:
  "merge_overlapping_strings ''abc'' ''def'' (99 / 100) None = (''abcdef'', 0, - 1)"
  by (simp add: merge_overlapping_strings_def py_range1_def merge_step_def overlap_score_def
      Levenshtein_ratio_def py_slice_def py_index_def upt_rec)

lemma merge_overlapping_strings_char:
  "merge_overlapping_strings str1 str2 thresh max_range =
     (let mr = (case max_range of None \<Rightarrow> min (length str1) (length str2) | Some m \<Rightarrow> nat m);
          sim = (\<lambda>i. Levenshtein_ratio (if i = 0 then str1 else drop (length str1 - i) str1)
                        (take i str2));
          Q = {i. i < mr \<and> thresh \<le> sim i}
      in if Q = {} then (str1 @ str2, 0, - 1)
         else (str1 @ drop (Max Q) str2, int (Max Q), sim (Max Q)))"
proof -
  define mr where
    "mr = (case max_range of None \<Rightarrow> min (length str1) (length str2) | Some m \<Rightarrow> nat m)"
  define sim where
    "sim = (\<lambda>i. Levenshtein_ratio (if i = 0 then str1 else drop (length str1 - i) str1)
                  (take i str2))"
  define Q where "Q = {i. i < mr \<and> thresh \<le> sim i}"
  have sim: "overlap_score str1 str2 (int i) = sim i" for i
    unfolding sim_def by (rule overlap_score_nat)
  have r: "py_range1 (case max_range of None \<Rightarrow> int (min (length str1) (length str2))
                       | Some m \<Rightarrow> m) = py_range1 (int mr)"
    by (simp add: mr_def py_range1_def split: option.splits)
  have loop: "foldl (merge_step str1 str2 thresh) (0, - 1) (py_range1 (int mr)) =
      (if Q = {} then (0, - 1) else (int (Max Q), sim (Max Q)))"
    unfolding foldl_merge_step sim Q_def ..
  have "merge_overlapping_strings str1 str2 thresh max_range =
      (if Q = {} then (str1 @ str2, 0, - 1)
         else (str1 @ drop (Max Q) str2, int (Max Q), sim (Max Q)))"
    unfolding merge_overlapping_strings_def Let_def r loop
    using py_slice_from[of str2 0] by (simp add: py_slice_from)
  then show ?thesis
    unfolding Let_def mr_def sim_def Q_def .
qed

text \<open>
  C1 (as amended). The candidate \<open>i\<close> compares \<open>str1[-i:]\<close> with \<open>str2[:i]\<close>: for
  \<open>i \<ge> 1\<close> these are the last and the first \<open>i\<close> characters (all of the string when it
  is shorter), but \<open>str1[-0:]\<close> is the whole of \<open>str1\<close>, not its empty suffix. With this
  similarity, \<open>merge_overlapping_strings\<close> returns \<open>(str1 + str2[match:], match,
  match_score)\<close> where \<open>match\<close> is the largest candidate in \<open>[0, max_range)\<close> whose
  similarity reaches \<open>thresh\<close> and \<open>match_score\<close> its similarity; when no candidate
  qualifies it returns \<open>(str1 + str2, 0, -1)\<close>. \<open>max_range\<close> defaults to the smaller of
  the two lengths.
\<close>

theorem merge_overlapping_strings_largest_match:
  "merge_overlapping_strings str1 str2 thresh max_range =
     (let mr = (case max_range of None \<Rightarrow> min (length str1) (length str2) | Some m \<Rightarrow> nat m);
          sim = (\<lambda>i. Levenshtein_ratio (if i = 0 then str1 else drop (length str1 - i) str1)
                        (take i str2));
          Q = {i. i < mr \<and> thresh \<le> sim i}
      in if Q = {} then (str1 @ str2, 0, - 1)
         else (str1 @ drop (Max Q) str2, int (Max Q), sim (Max Q)))"
  by (rule merge_overlapping_strings_char)

text \<open>
  C1 fails as stated: for \<open>"abc"\<close>, \<open>"def"\<close> and threshold 0.99 the candidate \<open>0\<close> lies in
  the search range and, measured as the claim says (the last 0 characters of \<open>str1\<close>
  against the first 0 characters of \<open>str2\<close>), has similarity 1, so it qualifies; yet
  the function returns the score \<open>-1\<close> that the claim keeps for "no candidate
  qualifies".
\<close>

theorem merge_abc_def_candidate_zero_counterexample:
  "spec_overlap_score ''abc'' ''def'' 0 = 1
   \<and> (99 / 100 :: rat) \<le> 1
   \<and> (0::nat) < min (length ''abc'') (length ''def'')
   \<and> merge_overlapping_strings ''abc'' ''def'' (99 / 100) None = (''abcdef'', 0, - 1)"
  by (simp add: merge_abc_def_value spec_overlap_score_def Levenshtein_ratio_def)

text \<open>
  C8. \<open>merge_overlapping_strings("abc", "def", thresh=0.99)\<close> returns the merged string
  \<open>"abcdef"\<close> and the score \<open>-1\<close>: the search range is \<open>0, 1, 2\<close> and none of the three
  candidates, the candidate \<open>0\<close> included, reaches 0.99.
\<close>

theorem merge_abc_def_no_overlap:
  "merge_overlapping_strings ''abc'' ''def'' (99 / 100) None = (''abcdef'', 0, - 1)
   \<and> py_range1 (int (min (length ''abc'') (length ''def''))) = [0, 1, 2]
   \<and> overlap_score ''abc'' ''def'' 0 < 99 / 100
   \<and> overlap_score ''abc'' ''def'' 1 < 99 / 100
   \<and> overlap_score ''abc'' ''def'' 2 < 99 / 100"
  by (simp add: merge_abc_def_value overlap_score_def Levenshtein_ratio_def py_slice_def
      py_index_def py_range1_def upt_rec)

subsection \<open>The window loop\<close>

lemma chunk_fits:
  assumes "0 \<le> beg"
  shows "length (py_slice xs (Some beg) (Some (beg + winsize)))
           \<le> length (py_slice xs None (Some winsize))"
proof -
  have "length (py_slice xs (Some beg) (Some (beg + winsize)))
          \<le> py_index (length xs) (beg + winsize) - py_index (length xs) beg"
    by (simp add: py_slice_unfold)
  also have "\<dots> \<le> py_index (length xs) winsize"
    by (rule py_index_diff[OF assms])
  also have "\<dots> = length (py_slice xs None (Some winsize))"
    using py_index_le[of "length xs" winsize] by (simp add: py_slice_unfold)
  finally show ?thesis .
qed

lemma assign_prefix:
  assumes "length ys \<le> length xs"
  shows "inplace_slice_op (\<lambda>_ y. y) xs None (Some (int (length ys))) ys
           = Inr (ys @ drop (length ys) xs)"
proof -
  have t: "py_slice xs None (Some (int (length ys))) = take (length ys) xs"
    by (rule py_slice_prefix)
  have "map2 (\<lambda>_ y. y) (take (length ys) xs) ys = map snd (zip (take (length ys) xs) ys)"
    by (rule map_cong) auto
  also have "\<dots> = ys" using assms by (simp add: map_snd_zip)
  finally have m: "map2 (\<lambda>_ y. y) (take (length ys) xs) ys = ys" .
  have l: "length (take (length ys) xs) = length ys" using assms by simp
  show ?thesis
    unfolding inplace_slice_op_def Let_def t l m by simp
qed

lemma length_inplace_slice_op:
  assumes a: "inplace_slice_op f xs s e ys = Inr zs"
  shows "length zs = length xs"
proof -
  define lo where "lo = (case s of None \<Rightarrow> 0 | Some i \<Rightarrow> py_index (length xs) i)"
  define tg where "tg = py_slice xs s e"
  have lo: "lo \<le> length xs"
    by (cases s) (simp_all add: lo_def py_index_le)
  have lt: "lo + length tg \<le> length xs"
    unfolding tg_def py_slice_unfold lo_def[symmetric] using lo by simp
  have len: "length ys = length tg
             \<or> zs = take lo xs @ map (\<lambda>x. f x (hd ys)) tg @ drop (lo + length tg) xs"
    using a unfolding inplace_slice_op_def Let_def lo_def[symmetric] tg_def[symmetric]
    by (simp_all split: if_splits)
  show ?thesis
  proof (cases "length ys = length tg")
    case True
    with a have "zs = take lo xs @ map2 f tg ys @ drop (lo + length tg) xs"
      unfolding inplace_slice_op_def Let_def lo_def[symmetric] tg_def[symmetric] by simp
    then show ?thesis using lo lt True by simp
  next
    case False
    with len have "zs = take lo xs @ map (\<lambda>x. f x (hd ys)) tg @ drop (lo + length tg) xs"
      by simp
    then show ?thesis using lo lt by simp
  qed
qed

lemma window_batch_simps:
  "dtype (window_batch bt xs ws beg) = dtype bt"
  "device (window_batch bt xs ws beg) = device bt"
  by (simp_all add: window_batch_def Let_def)

lemma length_window_batch:
  "length (py_slice xs (Some beg) (Some (beg + ws))) \<le> length (vals bt) \<Longrightarrow>
   length (vals (window_batch bt xs ws beg)) = length (vals bt)"
  by (simp add: window_batch_def Let_def)

lemma length_window_batches: "length (window_batches bt xs ws begs) = length begs"
  by (induction begs arbitrary: bt) simp_all

lemma window_batches_frame:
  assumes "\<forall>beg\<in>set begs. 0 \<le> beg"
      and "length (vals bt) = length (py_slice xs None (Some ws))"
  shows "\<forall>B\<in>set (window_batches bt xs ws begs).
           length (vals B) = length (vals bt) \<and> dtype B = dtype bt \<and> device B = device bt"
  using assms
proof (induction begs arbitrary: bt)
  case Nil
  then show ?case by simp
next
  case (Cons beg begs)
  define B where "B = window_batch bt xs ws beg"
  have beg: "0 \<le> beg" using Cons.prems(1) by simp
  have fit: "length (py_slice xs (Some beg) (Some (beg + ws))) \<le> length (vals bt)"
    unfolding Cons.prems(2) by (rule chunk_fits[OF beg])
  have lB: "length (vals B) = length (vals bt)"
    unfolding B_def by (rule length_window_batch[OF fit])
  have dB: "dtype B = dtype bt" "device B = device bt"
    by (simp_all add: B_def window_batch_simps)
  have p1: "\<forall>beg\<in>set begs. 0 \<le> beg" using Cons.prems(1) by simp
  have p2: "length (vals B) = length (py_slice xs None (Some ws))"
    unfolding lB by (rule Cons.prems(2))
  have IH: "\<forall>B'\<in>set (window_batches B xs ws begs).
           length (vals B') = length (vals B) \<and> dtype B' = dtype B \<and> device B' = device B"
    by (rule Cons.IH[OF p1 p2])
  show ?case
    using IH lB dB by (simp add: B_def[symmetric])
qed

lemma windowed_run_loop_step:
  assumes fit: "length (py_slice (vals (heap w ! a)) (Some beg) (Some (beg + winsize)))
                  \<le> length (vals (heap w ! b))"
  shows "windowed_run_loop model chunk_hook a b winsize (beg # begs) chunks w =
         windowed_run_loop model chunk_hook a b winsize begs
           (chunks @ [chunk_hook (model (window_batch (heap w ! b) (vals (heap w ! a)) winsize beg))])
           (w\<lparr>heap := (heap w)[b := window_batch (heap w ! b) (vals (heap w ! a)) winsize beg],
              model_calls := model_calls w
                 @ [window_batch (heap w ! b) (vals (heap w ! a)) winsize beg]\<rparr>)"
proof -
  define chunk where "chunk = py_slice (vals (heap w ! a)) (Some beg) (Some (beg + winsize))"
  define zeroed where "zeroed = map (\<lambda>x. sample_mul x (Finite 0)) (vals (heap w ! b))"
  have fit': "length chunk \<le> length zeroed" using fit by (simp add: chunk_def zeroed_def)
  have asg: "inplace_slice_op (\<lambda>_ y. y) zeroed None (Some (int (length chunk))) chunk
      = Inr (chunk @ drop (length chunk) zeroed)"
    by (rule assign_prefix[OF fit'])
  have wb: "window_batch (heap w ! b) (vals (heap w ! a)) winsize beg
      = (heap w ! b)\<lparr>vals := chunk @ drop (length chunk) zeroed\<rparr>"
    by (simp add: window_batch_def Let_def chunk_def zeroed_def)
  show ?thesis
    unfolding windowed_run_loop.simps Let_def chunk_def[symmetric] zeroed_def[symmetric] asg wb
    by simp
qed

lemma windowed_run_loop_char:
  assumes "a < length (heap w)" "b < length (heap w)" "a \<noteq> b"
      and "\<forall>beg\<in>set begs. 0 \<le> beg"
      and "length (vals (heap w ! b)) = length (py_slice (vals (heap w ! a)) None (Some winsize))"
  shows "windowed_run_loop model chunk_hook a b winsize begs chunks w =
     (Inr (chunks @ map (\<lambda>B. chunk_hook (model B))
                      (window_batches (heap w ! b) (vals (heap w ! a)) winsize begs)),
      w\<lparr>heap := (heap w)[b := last (heap w ! b
                   # window_batches (heap w ! b) (vals (heap w ! a)) winsize begs)],
        model_calls := model_calls w
           @ window_batches (heap w ! b) (vals (heap w ! a)) winsize begs\<rparr>)"
  using assms
proof (induction begs arbitrary: chunks w)
  case Nil
  then show ?case by simp
next
  case (Cons beg begs)
  define B where "B = window_batch (heap w ! b) (vals (heap w ! a)) winsize beg"
  define w' where "w' = w\<lparr>heap := (heap w)[b := B], model_calls := model_calls w @ [B]\<rparr>"
  define rest where "rest = window_batches B (vals (heap w ! a)) winsize begs"
  have beg: "0 \<le> beg" using Cons.prems(4) by simp
  have fit: "length (py_slice (vals (heap w ! a)) (Some beg) (Some (beg + winsize)))
                  \<le> length (vals (heap w ! b))"
    unfolding Cons.prems(5) by (rule chunk_fits[OF beg])
  have step: "windowed_run_loop model chunk_hook a b winsize (beg # begs) chunks w =
         windowed_run_loop model chunk_hook a b winsize begs
           (chunks @ [chunk_hook (model B)]) w'"
    unfolding B_def w'_def by (rule windowed_run_loop_step[OF fit])
  have ha: "heap w' ! a = heap w ! a"
    using Cons.prems(1-3) by (simp add: w'_def)
  have hb: "heap w' ! b = B"
    using Cons.prems(2) by (simp add: w'_def)
  have lenB: "length (vals B) = length (vals (heap w ! b))"
    unfolding B_def by (rule length_window_batch[OF fit])
  have p1: "a < length (heap w')" "b < length (heap w')"
    using Cons.prems(1,2) by (simp_all add: w'_def)
  have p4: "\<forall>beg\<in>set begs. 0 \<le> beg" using Cons.prems(4) by simp
  have p5: "length (vals (heap w' ! b)) = length (py_slice (vals (heap w' ! a)) None (Some winsize))"
    unfolding hb ha lenB by (rule Cons.prems(5))
  have IH: "windowed_run_loop model chunk_hook a b winsize begs
           (chunks @ [chunk_hook (model B)]) w' =
     (Inr ((chunks @ [chunk_hook (model B)]) @ map (\<lambda>B. chunk_hook (model B)) rest),
      w'\<lparr>heap := (heap w')[b := last (B # rest)],
        model_calls := model_calls w' @ rest\<rparr>)"
    using Cons.IH[OF p1 Cons.prems(3) p4 p5, of "chunks @ [chunk_hook (model B)]"]
    unfolding hb ha rest_def .
  have wb: "window_batches (heap w ! b) (vals (heap w ! a)) winsize (beg # begs) = B # rest"
    by (simp add: B_def rest_def)
  show ?case
    unfolding step IH wb
    by (simp add: w'_def)
qed

lemma py_range_zero_step: "py_range start stop 0 = Inl ValueError"
  by (simp add: py_range_def)

lemma py_range_neg_step: "step < 0 \<Longrightarrow> 0 \<le> stop \<Longrightarrow> py_range 0 stop step = Inr []"
  by (simp add: py_range_def)

lemma py_range_empty_stop: "step \<noteq> 0 \<Longrightarrow> py_range 0 0 step = Inr []"
  by (simp add: py_range_def)

lemma py_range_pos_step:
  "0 < step \<Longrightarrow> 0 < stop \<Longrightarrow>
   py_range 0 stop step = Inr (map (\<lambda>k. int k * step) [0..<nat ((stop - 1) div step + 1)])"
  by (simp add: py_range_def Let_def)

lemma py_range_nonneg:
  assumes "py_range 0 stop step = Inr begs" "0 \<le> stop"
  shows "\<forall>beg\<in>set begs. 0 \<le> beg"
proof (cases "step > 0")
  case True
  with assms show ?thesis by (auto simp: py_range_def Let_def split: if_splits)
next
  case False
  with assms have "begs = []" by (auto simp: py_range_def Let_def split: if_splits)
  then show ?thesis by simp
qed

text \<open>An exception of \<open>int(overlap_ratio * winsize)\<close> ends the run at once.\<close>

lemma windowed_run_overlap_error:
  assumes "int_of_float_times_int overlap_ratio
             (min max_winsize (int (length (vals (heap w ! a))))) = Inl e"
  shows "windowed_run model a max_winsize overlap_ratio dev chunk_hook w = (Inl e, w)"
  unfolding windowed_run_def Let_def assms by simp

text \<open>
  Otherwise the run depends on its parameters only through \<open>range(0, n, stride)\<close>: it
  raises what \<open>range\<close> raises, and else invokes the callable once per start offset, on the
  successive contents of the batch, and returns.
\<close>

lemma windowed_run_char:
  assumes a: "a < length (heap w)"
      and ov: "int_of_float_times_int overlap_ratio
                 (min max_winsize (int (length (vals (heap w ! a))))) = Inr overlap"
  shows "windowed_run model a max_winsize overlap_ratio dev chunk_hook w =
     (let tnsr = heap w ! a;
          n = int (length (vals tnsr));
          winsize = min max_winsize n;
          stride = winsize - overlap;
          Z = zeros_like (tnsr\<lparr>vals := py_slice (vals tnsr) None (Some winsize)\<rparr>) dev
      in case py_range 0 n stride of
           Inl e \<Rightarrow> (Inl e, w\<lparr>heap := heap w @ [Z]\<rparr>)
         | Inr begs \<Rightarrow>
             (Inr (map (\<lambda>B. chunk_hook (model B)) (window_batches Z (vals tnsr) winsize begs),
                   begs, winsize, overlap),
              w\<lparr>heap := heap w @ [last (Z # window_batches Z (vals tnsr) winsize begs)],
                model_calls := model_calls w @ window_batches Z (vals tnsr) winsize begs\<rparr>))"
proof -
  define tnsr where "tnsr = heap w ! a"
  define n where "n = int (length (vals tnsr))"
  define winsize where "winsize = min max_winsize n"
  define stride where "stride = winsize - overlap"
  define Z where "Z = zeros_like (tnsr\<lparr>vals := py_slice (vals tnsr) None (Some winsize)\<rparr>) dev"
  define w1 where "w1 = w\<lparr>heap := heap w @ [Z]\<rparr>"
  have ov': "int_of_float_times_int overlap_ratio winsize = Inr overlap"
    using ov by (simp add: winsize_def n_def tnsr_def)
  have unf: "windowed_run model a max_winsize overlap_ratio dev chunk_hook w =
      (case py_range 0 n stride of
           Inl e \<Rightarrow> (Inl e, w1)
         | Inr window_range \<Rightarrow>
             (case windowed_run_loop model chunk_hook a (length (heap w)) winsize window_range [] w1 of
                (Inl e, w2) \<Rightarrow> (Inl e, w2)
              | (Inr chunks, w2) \<Rightarrow> (Inr (chunks, window_range, winsize, overlap), w2)))"
    unfolding windowed_run_def Let_def tnsr_def[symmetric] n_def[symmetric]
      winsize_def[symmetric] ov' sum.case stride_def[symmetric] Z_def[symmetric]
      w1_def[symmetric] ..
  have ha: "heap w1 ! a = tnsr" using a by (simp add: w1_def tnsr_def nth_append)
  have hb: "heap w1 ! length (heap w) = Z" by (simp add: w1_def)
  have lenZ: "length (vals Z) = length (py_slice (vals tnsr) None (Some winsize))"
    by (simp add: Z_def zeros_like_def)
  have loop: "windowed_run_loop model chunk_hook a (length (heap w)) winsize begs [] w1 =
     (Inr (map (\<lambda>B. chunk_hook (model B)) (window_batches Z (vals tnsr) winsize begs)),
      w\<lparr>heap := heap w @ [last (Z # window_batches Z (vals tnsr) winsize begs)],
        model_calls := model_calls w @ window_batches Z (vals tnsr) winsize begs\<rparr>)"
    if "py_range 0 n stride = Inr begs" for begs
  proof -
    have nn: "\<forall>beg\<in>set begs. 0 \<le> beg"
      by (rule py_range_nonneg[OF that]) (simp add: n_def)
    have "windowed_run_loop model chunk_hook a (length (heap w)) winsize begs [] w1 =
     (Inr ([] @ map (\<lambda>B. chunk_hook (model B))
                  (window_batches (heap w1 ! length (heap w)) (vals (heap w1 ! a)) winsize begs)),
      w1\<lparr>heap := (heap w1)[length (heap w) := last (heap w1 ! length (heap w)
                 # window_batches (heap w1 ! length (heap w)) (vals (heap w1 ! a)) winsize begs)],
        model_calls := model_calls w1
           @ window_batches (heap w1 ! length (heap w)) (vals (heap w1 ! a)) winsize begs\<rparr>)"
      by (rule windowed_run_loop_char) (use a nn in \<open>simp_all add: ha hb lenZ\<close>, simp_all add: w1_def)
    then show ?thesis
      unfolding ha hb by (simp add: w1_def)
  qed
  have "windowed_run model a max_winsize overlap_ratio dev chunk_hook w =
      (case py_range 0 n stride of
           Inl e \<Rightarrow> (Inl e, w\<lparr>heap := heap w @ [Z]\<rparr>)
         | Inr begs \<Rightarrow>
             (Inr (map (\<lambda>B. chunk_hook (model B)) (window_batches Z (vals tnsr) winsize begs),
                   begs, winsize, overlap),
              w\<lparr>heap := heap w @ [last (Z # window_batches Z (vals tnsr) winsize begs)],
                model_calls := model_calls w @ window_batches Z (vals tnsr) winsize begs\<rparr>))"
  proof (cases "py_range 0 n stride")
    case (Inl e)
    show ?thesis unfolding unf Inl by (simp add: w1_def)
  next
    case (Inr begs)
    show ?thesis unfolding unf Inr by (simp add: loop[OF Inr])
  qed
  then show ?thesis
    unfolding Let_def tnsr_def[symmetric] n_def[symmetric]
      winsize_def[symmetric] stride_def[symmetric] Z_def[symmetric] .
qed

subsection \<open>Start offsets\<close>

lemma start_below_iff:
  assumes "0 < stride"
  shows "int k * stride < n \<longleftrightarrow> int k \<le> (n - 1) div stride"
proof
  assume "int k * stride < n"
  then have "int k * stride \<le> n - 1" by simp
  then have "(int k * stride) div stride \<le> (n - 1) div stride"
    using assms by (rule zdiv_mono1)
  then show "int k \<le> (n - 1) div stride" using assms by simp
next
  assume "int k \<le> (n - 1) div stride"
  then have "int k * stride \<le> ((n - 1) div stride) * stride"
    using assms by (simp add: mult_right_mono)
  also have "\<dots> \<le> n - 1"
  proof -
    have "0 \<le> (n - 1) mod stride" using assms by simp
    moreover have "((n - 1) div stride) * stride = (n - 1) - (n - 1) mod stride"
      by (simp add: minus_mod_eq_div_mult)
    ultimately show ?thesis by linarith
  qed
  finally show "int k * stride < n" by simp
qed

lemma starts_mem:
  assumes "0 < stride"
  shows "s \<in> set (map (\<lambda>k. int k * stride) [0..<nat ((n - 1) div stride + 1)])
           \<longleftrightarrow> 0 \<le> s \<and> s < n \<and> stride dvd s"
proof
  assume "s \<in> set (map (\<lambda>k. int k * stride) [0..<nat ((n - 1) div stride + 1)])"
  then obtain k where k: "k < nat ((n - 1) div stride + 1)" and s: "s = int k * stride"
    by auto
  from k have "int k \<le> (n - 1) div stride" by linarith
  then have "int k * stride < n" using start_below_iff[OF assms] by simp
  then show "0 \<le> s \<and> s < n \<and> stride dvd s" using assms by (simp add: s)
next
  assume a: "0 \<le> s \<and> s < n \<and> stride dvd s"
  then obtain q where q: "s = stride * q" by (auto elim: dvdE)
  with a assms have "0 \<le> q" by (simp add: zero_le_mult_iff)
  then obtain k where qk: "q = int k" by (auto elim: nonneg_int_cases)
  have s: "s = int k * stride" by (simp add: q qk)
  with a have "int k \<le> (n - 1) div stride" using start_below_iff[OF assms] by simp
  then have "k < nat ((n - 1) div stride + 1)" by linarith
  then show "s \<in> set (map (\<lambda>k. int k * stride) [0..<nat ((n - 1) div stride + 1)])"
    unfolding s by (simp add: image_iff) (rule bexI[of _ k], simp_all)
qed

lemma starts_sorted:
  assumes "0 < (stride::int)"
  shows "sorted_wrt (<) (map (\<lambda>k. int k * stride) [0..<m])"
  unfolding sorted_wrt_map using assms
  by (intro sorted_wrt_mono_rel[OF _ sorted_wrt_upt]) simp

lemma starts_cover:
  assumes "0 < stride" "0 \<le> p" "p < n"
  shows "\<exists>s. s \<in> set (map (\<lambda>k. int k * stride) [0..<nat ((n - 1) div stride + 1)])
            \<and> s \<le> p \<and> p < s + stride"
proof -
  define s where "s = (p div stride) * stride"
  have m0: "0 \<le> p mod stride" and m1: "p mod stride < stride" using assms(1) by simp_all
  have sp: "s = p - p mod stride" by (simp add: s_def minus_mod_eq_div_mult)
  have le: "s \<le> p" using m0 sp by linarith
  have lt: "p < s + stride" using m1 sp by linarith
  have "0 \<le> p div stride" using assms by (simp add: pos_imp_zdiv_nonneg_iff)
  then have n0: "0 \<le> s" using assms(1) by (simp add: s_def)
  have "stride dvd s" by (simp add: s_def)
  with n0 le assms(3) have "s \<in> set (map (\<lambda>k. int k * stride) [0..<nat ((n - 1) div stride + 1)])"
    unfolding starts_mem[OF assms(1)] by simp
  with le lt show ?thesis by blast
qed

lemma window_starts_props:
  assumes st: "0 < stride" and n: "1 \<le> n"
  shows "py_range 0 n stride = Inr (window_starts n stride)"
    and "window_starts n stride \<noteq> []"
    and "window_starts n stride
           = map (\<lambda>k. int k * stride) [0..<length (window_starts n stride)]"
    and "\<And>s. s \<in> set (window_starts n stride) \<longleftrightarrow> 0 \<le> s \<and> s < n \<and> stride dvd s"
    and "sorted_wrt (<) (window_starts n stride)"
    and "hd (window_starts n stride) = 0"
proof -
  show rg: "py_range 0 n stride = Inr (window_starts n stride)"
    unfolding window_starts_def by (rule py_range_pos_step) (use st n in simp_all)
  have "0 \<le> (n - 1) div stride" using st n by (simp add: pos_imp_zdiv_nonneg_iff)
  then show ne: "window_starts n stride \<noteq> []" by (simp add: window_starts_def)
  show shape: "window_starts n stride
           = map (\<lambda>k. int k * stride) [0..<length (window_starts n stride)]"
    by (simp add: window_starts_def)
  show "s \<in> set (window_starts n stride) \<longleftrightarrow> 0 \<le> s \<and> s < n \<and> stride dvd s" for s
    unfolding window_starts_def by (rule starts_mem[OF st])
  show "sorted_wrt (<) (window_starts n stride)"
    unfolding window_starts_def by (rule starts_sorted[OF st])
  have "0 < length (window_starts n stride)" using ne by simp
  then have "(map (\<lambda>k. int k * stride) [0..<length (window_starts n stride)]) ! 0 = 0" by simp
  then have "window_starts n stride ! 0 = 0" using shape by simp
  then show "hd (window_starts n stride) = 0" using ne by (simp add: hd_conv_nth)
qed

text \<open>
  A valid run: a signal of \<open>n \<ge> 1\<close> samples, \<open>max_winsize \<ge> 1\<close>, a window size below
  \<open>2 ^ 53\<close> (so that its conversion to \<open>float\<close> is exact) and a double ratio in
  \<open>[0, 1)\<close>. The overlap the code computes lies in \<open>[0, winsize)\<close>, the stride is
  positive, and the run returns.
\<close>

lemma windowed_run_valid:
  assumes a: "a < length (heap w)"
      and n: "1 \<le> length (vals (heap w ! a))"
      and mw: "1 \<le> max_winsize"
      and sz: "min max_winsize (int (length (vals (heap w ! a)))) < 2 ^ 53"
      and r: "is_double r" "0 \<le> r" "r < 1"
      and nd: "n = int (length (vals (heap w ! a)))"
      and wd: "winsize = min max_winsize n"
  obtains overlap where
      "int_of_float_times_int (Finite r) winsize = Inr overlap"
      "0 \<le> overlap" "overlap < winsize"
      "\<lfloor>r * of_int winsize\<rfloor> \<le> overlap" "overlap \<le> \<lfloor>r * of_int winsize\<rfloor> + 1"
      "1 \<le> winsize"
      "windowed_run model a max_winsize (Finite r) dev chunk_hook w =
         (Inr (map (\<lambda>B. chunk_hook (model B))
                 (window_batches (zero_batch (heap w ! a) winsize dev) (vals (heap w ! a)) winsize
                    (window_starts n (winsize - overlap))),
               window_starts n (winsize - overlap), winsize, overlap),
          w\<lparr>heap := heap w @
                [last (window_batches (zero_batch (heap w ! a) winsize dev) (vals (heap w ! a))
                         winsize (window_starts n (winsize - overlap)))],
            model_calls := model_calls w @
                window_batches (zero_batch (heap w ! a) winsize dev) (vals (heap w ! a)) winsize
                  (window_starts n (winsize - overlap))\<rparr>)"
proof -
  have n1: "1 \<le> n" using n by (simp add: nd)
  have ws: "1 \<le> winsize" using n1 mw by (simp add: wd)
  have wb: "winsize < 2 ^ 53" using sz by (simp add: wd nd)
  obtain overlap where ov: "int_of_float_times_int (Finite r) winsize = Inr overlap"
    and ov0: "0 \<le> overlap" and ovw: "overlap < winsize"
    and lo: "\<lfloor>r * of_int winsize\<rfloor> \<le> overlap" and hi: "overlap \<le> \<lfloor>r * of_int winsize\<rfloor> + 1"
    using valid_overlap[OF ws wb r] by blast
  define stride where "stride = winsize - overlap"
  define bufs where "bufs = window_batches (zero_batch (heap w ! a) winsize dev)
                      (vals (heap w ! a)) winsize (window_starts n stride)"
  have st: "0 < stride" using ovw by (simp add: stride_def)
  have rg: "py_range 0 n stride = Inr (window_starts n stride)"
    by (rule window_starts_props(1)[OF st n1])
  have ne: "window_starts n stride \<noteq> []" by (rule window_starts_props(2)[OF st n1])
  have bne: "bufs \<noteq> []"
    using ne length_window_batches[of "zero_batch (heap w ! a) winsize dev" "vals (heap w ! a)"
        winsize "window_starts n stride"]
    unfolding bufs_def[symmetric] by auto
  have ov': "int_of_float_times_int (Finite r)
               (min max_winsize (int (length (vals (heap w ! a))))) = Inr overlap"
    using ov by (simp add: wd nd)
  have run: "windowed_run model a max_winsize (Finite r) dev chunk_hook w =
         (Inr (map (\<lambda>B. chunk_hook (model B)) bufs, window_starts n stride, winsize, overlap),
          w\<lparr>heap := heap w @ [last bufs], model_calls := model_calls w @ bufs\<rparr>)"
    unfolding windowed_run_char[OF a ov'] Let_def nd[symmetric] wd[symmetric]
      stride_def[symmetric] rg zero_batch_def[symmetric]
    using bne by (simp add: bufs_def)
  show ?thesis
    by (rule that[of overlap])
       (rule ov, rule ov0, rule ovw, rule lo, rule hi, rule ws,
        rule run[unfolded bufs_def stride_def])
qed

text \<open>
  C3 (as amended). For a signal of length \<open>n \<ge> 1\<close>, \<open>max_winsize \<ge> 1\<close> and a double
  \<open>overlap_ratio\<close> in \<open>[0, 1)\<close>, with \<open>winsize = min(max_winsize, n)\<close> below \<open>2 ^ 53\<close>:
  the overlap that \<open>int(overlap_ratio * winsize)\<close> computes, from the product rounded to
  a double, is the floor of the exact product or one more, and lies in \<open>[0, winsize)\<close>;
  with \<open>stride = winsize - overlap\<close>, which is therefore at least 1, \<open>windowed_run\<close>
  returns, and the start offsets it returns are \<open>0, stride, 2 * stride, ...\<close>, exactly
  the multiples of the stride below \<open>n\<close>; they are strictly increasing and begin at 0,
  and every sample index in \<open>[0, n)\<close> lies in \<open>[start, start + winsize)\<close> for one of
  them.
\<close>

theorem windowed_run_start_offsets:
  assumes a: "a < length (heap w)"
      and n: "1 \<le> length (vals (heap w ! a))"
      and mw: "1 \<le> max_winsize"
      and sz: "min max_winsize (int (length (vals (heap w ! a)))) < 2 ^ 53"
      and r: "is_double overlap_ratio" "0 \<le> overlap_ratio" "overlap_ratio < 1"
  shows "let n = int (length (vals (heap w ! a)));
             winsize = min max_winsize n
         in \<exists>overlap chunks begs w'.
              int_of_float_times_int (Finite overlap_ratio) winsize = Inr overlap
              \<and> \<lfloor>overlap_ratio * of_int winsize\<rfloor> \<le> overlap
              \<and> overlap \<le> \<lfloor>overlap_ratio * of_int winsize\<rfloor> + 1
              \<and> 0 \<le> overlap \<and> overlap < winsize \<and> 1 \<le> winsize - overlap
              \<and> windowed_run model a max_winsize (Finite overlap_ratio) dev chunk_hook w
                  = (Inr (chunks, begs, winsize, overlap), w')
              \<and> length chunks = length begs
              \<and> begs = map (\<lambda>k. int k * (winsize - overlap)) [0..<length begs]
              \<and> (\<forall>s. s \<in> set begs \<longleftrightarrow> 0 \<le> s \<and> s < n \<and> (winsize - overlap) dvd s)
              \<and> sorted_wrt (<) begs \<and> begs \<noteq> [] \<and> hd begs = 0
              \<and> (\<forall>p. 0 \<le> p \<and> p < n \<longrightarrow> (\<exists>s. s \<in> set begs \<and> s \<le> p \<and> p < s + winsize))"
proof -
  define n where "n = int (length (vals (heap w ! a)))"
  define winsize where "winsize = min max_winsize n"
  obtain overlap where ov: "int_of_float_times_int (Finite overlap_ratio) winsize = Inr overlap"
    and ov0: "0 \<le> overlap" and ovw: "overlap < winsize"
    and lo: "\<lfloor>overlap_ratio * of_int winsize\<rfloor> \<le> overlap"
    and hi: "overlap \<le> \<lfloor>overlap_ratio * of_int winsize\<rfloor> + 1"
    and run: "windowed_run model a max_winsize (Finite overlap_ratio) dev chunk_hook w =
         (Inr (map (\<lambda>B. chunk_hook (model B))
                 (window_batches (zero_batch (heap w ! a) winsize dev) (vals (heap w ! a)) winsize
                    (window_starts n (winsize - overlap))),
               window_starts n (winsize - overlap), winsize, overlap),
          w\<lparr>heap := heap w @
                [last (window_batches (zero_batch (heap w ! a) winsize dev) (vals (heap w ! a))
                         winsize (window_starts n (winsize - overlap)))],
            model_calls := model_calls w @
                window_batches (zero_batch (heap w ! a) winsize dev) (vals (heap w ! a)) winsize
                  (window_starts n (winsize - overlap))\<rparr>)"
    using windowed_run_valid[OF a n mw sz r n_def winsize_def,
        where model = model and dev = dev and chunk_hook = chunk_hook]
    by blast
  define stride where "stride = winsize - overlap"
  define begs where "begs = window_starts n stride"
  have n1: "1 \<le> n" using n by (simp add: n_def)
  have st: "1 \<le> stride" using ovw by (simp add: stride_def)
  have st0: "0 < stride" using st by simp
  have len: "length (map (\<lambda>B. chunk_hook (model B))
                 (window_batches (zero_batch (heap w ! a) winsize dev) (vals (heap w ! a)) winsize
                    begs)) = length begs"
    by (simp add: length_window_batches)
  have shape: "begs = map (\<lambda>k. int k * stride) [0..<length begs]"
    unfolding begs_def by (rule window_starts_props(3)[OF st0 n1])
  have mem: "\<forall>s. s \<in> set begs \<longleftrightarrow> 0 \<le> s \<and> s < n \<and> stride dvd s"
    unfolding begs_def using window_starts_props(4)[OF st0 n1] by blast
  have srt: "sorted_wrt (<) begs" unfolding begs_def by (rule window_starts_props(5)[OF st0 n1])
  have ne: "begs \<noteq> []" unfolding begs_def by (rule window_starts_props(2)[OF st0 n1])
  have hd0: "hd begs = 0" unfolding begs_def by (rule window_starts_props(6)[OF st0 n1])
  have cov: "\<forall>p. 0 \<le> p \<and> p < n \<longrightarrow> (\<exists>s. s \<in> set begs \<and> s \<le> p \<and> p < s + winsize)"
  proof (intro allI impI)
    fix p assume p: "0 \<le> p \<and> p < n"
    then obtain s where "s \<in> set begs" "s \<le> p" "p < s + stride"
      using starts_cover[OF st0, of p n] unfolding begs_def window_starts_def by blast
    moreover have "stride \<le> winsize" using ov0 by (simp add: stride_def)
    ultimately show "\<exists>s. s \<in> set begs \<and> s \<le> p \<and> p < s + winsize" by force
  qed
  have "\<exists>overlap chunks begs w'.
              int_of_float_times_int (Finite overlap_ratio) winsize = Inr overlap
              \<and> \<lfloor>overlap_ratio * of_int winsize\<rfloor> \<le> overlap
              \<and> overlap \<le> \<lfloor>overlap_ratio * of_int winsize\<rfloor> + 1
              \<and> 0 \<le> overlap \<and> overlap < winsize \<and> 1 \<le> winsize - overlap
              \<and> windowed_run model a max_winsize (Finite overlap_ratio) dev chunk_hook w
                  = (Inr (chunks, begs, winsize, overlap), w')
              \<and> length chunks = length begs
              \<and> begs = map (\<lambda>k. int k * (winsize - overlap)) [0..<length begs]
              \<and> (\<forall>s. s \<in> set begs \<longleftrightarrow> 0 \<le> s \<and> s < n \<and> (winsize - overlap) dvd s)
              \<and> sorted_wrt (<) begs \<and> begs \<noteq> [] \<and> hd begs = 0
              \<and> (\<forall>p. 0 \<le> p \<and> p < n \<longrightarrow> (\<exists>s. s \<in> set begs \<and> s \<le> p \<and> p < s + winsize))"
    by (intro exI conjI)
       (rule ov, rule lo, rule hi, rule ov0, rule ovw, rule st[unfolded stride_def],
        rule run[folded stride_def, folded begs_def], rule len,
        rule shape[unfolded stride_def], rule mem[unfolded stride_def], rule srt, rule ne,
        rule hd0, rule cov)
  then show ?thesis
    unfolding Let_def n_def[symmetric] winsize_def[symmetric] .
qed

theorem windowed_run_start_offsets_witness:
  "(let n = int (length (vals (heap example_world ! 0)));
       winsize = min 3 n
   in \<exists>overlap chunks begs w'.
        int_of_float_times_int (Finite (1 / 2)) winsize = Inr overlap
        \<and> \<lfloor>(1 / 2 :: rat) * of_int winsize\<rfloor> \<le> overlap
        \<and> overlap \<le> \<lfloor>(1 / 2 :: rat) * of_int winsize\<rfloor> + 1
        \<and> 0 \<le> overlap \<and> overlap < winsize \<and> 1 \<le> winsize - overlap
        \<and> windowed_run (\<lambda>b. b) 0 3 (Finite (1 / 2)) ''cpu'' (\<lambda>r. vals r) example_world
            = (Inr (chunks, begs, winsize, overlap), w')
        \<and> length chunks = length begs
        \<and> begs = map (\<lambda>k. int k * (winsize - overlap)) [0..<length begs]
        \<and> (\<forall>s. s \<in> set begs \<longleftrightarrow> 0 \<le> s \<and> s < n \<and> (winsize - overlap) dvd s)
        \<and> sorted_wrt (<) begs \<and> begs \<noteq> [] \<and> hd begs = 0
        \<and> (\<forall>p. 0 \<le> p \<and> p < n \<longrightarrow> (\<exists>s. s \<in> set begs \<and> s \<le> p \<and> p < s + winsize)))
   \<and> fst (windowed_run (\<lambda>b. b) 0 3 (Finite (1 / 2)) ''cpu'' (\<lambda>r. vals r) example_world)
     = Inr ([[Finite 1, Finite 2, Finite 3], [Finite 3, Finite 4, Finite 5],
             [Finite 5, Finite 0, Finite 0]], [0, 2, 4], 3, 1)"
proof (rule conjI)
  show "let n = int (length (vals (heap example_world ! 0)));
       winsize = min 3 n
   in \<exists>overlap chunks begs w'.
        int_of_float_times_int (Finite (1 / 2)) winsize = Inr overlap
        \<and> \<lfloor>(1 / 2 :: rat) * of_int winsize\<rfloor> \<le> overlap
        \<and> overlap \<le> \<lfloor>(1 / 2 :: rat) * of_int winsize\<rfloor> + 1
        \<and> 0 \<le> overlap \<and> overlap < winsize \<and> 1 \<le> winsize - overlap
        \<and> windowed_run (\<lambda>b. b) 0 3 (Finite (1 / 2)) ''cpu'' (\<lambda>r. vals r) example_world
            = (Inr (chunks, begs, winsize, overlap), w')
        \<and> length chunks = length begs
        \<and> begs = map (\<lambda>k. int k * (winsize - overlap)) [0..<length begs]
        \<and> (\<forall>s. s \<in> set begs \<longleftrightarrow> 0 \<le> s \<and> s < n \<and> (winsize - overlap) dvd s)
        \<and> sorted_wrt (<) begs \<and> begs \<noteq> [] \<and> hd begs = 0
        \<and> (\<forall>p. 0 \<le> p \<and> p < n \<longrightarrow> (\<exists>s. s \<in> set begs \<and> s \<le> p \<and> p < s + winsize))"
    by (rule windowed_run_start_offsets)
       (simp_all add: example_world_def example_signal_def is_double_examples)
  show "fst (windowed_run (\<lambda>b. b) 0 3 (Finite (1 / 2)) ''cpu'' (\<lambda>r. vals r) example_world)
     = Inr ([[Finite 1, Finite 2, Finite 3], [Finite 3, Finite 4, Finite 5],
             [Finite 5, Finite 0, Finite 0]], [0, 2, 4], 3, 1)"
    by code_simp
qed

text \<open>
  C3 fails as stated, with the stride taken from the floor of the exact product. For the
  double nearest to 0.7 and ten samples in one window size of 10, the exact product is
  just below 7, so the claim's stride is \<open>10 - 6 = 4\<close> and its starts are 0, 4, 8; the
  double product rounds to 7.0, so the code's overlap is 7, its stride 3 and its starts
  0, 3, 6, 9. (Read with the decimal 0.58 and a window size of 50, the claim's stride
  is \<open>50 - 29 = 21\<close>; the double product of the nearest double and 50 is just below 29,
  and the code's overlap is 28, its stride 22.)
\<close>

theorem windowed_run_stride_counterexample:
  "fst (windowed_run (\<lambda>b. b) 0 10 (Finite double_0_7) ''cpu'' (\<lambda>r. ()) (ramp_world 10))
     = Inr ([(), (), (), ()], [0, 3, 6, 9], 10, 7)
   \<and> min 10 (int (length (vals (heap (ramp_world 10) ! 0)))) - \<lfloor>double_0_7 * of_int 10\<rfloor> = 4
   \<and> window_starts 10 4 = [0, 4, 8]
   \<and> window_starts 10 4 \<noteq> [0, 3, 6, 9]
   \<and> 0 \<le> double_0_7 \<and> double_0_7 < 1
   \<and> fst (windowed_run (\<lambda>b. b) 0 50 (Finite double_0_58) ''cpu'' (\<lambda>r. ()) (ramp_world 50))
     = Inr ([(), (), ()], [0, 22, 44], 50, 28)
   \<and> min 50 (int (length (vals (heap (ramp_world 50) ! 0)))) - \<lfloor>(58 / 100 :: rat) * of_int 50\<rfloor>
     = 21
   \<and> window_starts 50 21 = [0, 21, 42]"
  by code_simp

subsection \<open>Invalid window parameters\<close>

lemma overlap_examples:
  "int_of_float_times_int PosInf 3 = Inl OverflowError"
  "int_of_float_times_int NaN 3 = Inl ValueError"
  "int_of_float_times_int (Finite 0) 1 = Inr 0"
  "int_of_float_times_int (Finite 0) 5 = Inr 0"
  "int_of_float_times_int (Finite (1 / 2)) 3 = Inr 1"
  "int_of_float_times_int (Finite 1) 3 = Inr 3"
  "int_of_float_times_int (Finite 2) 3 = Inr 6"
  "int_of_float_times_int (Finite 2) (- 2) = Inr (- 4)"
  by code_simp+

text \<open>
  C5 (as amended). The code has no check of its parameters and no dedicated error; what a
  call does is decided by \<open>int(overlap_ratio * winsize)\<close> and by
  \<open>range(0, n, stride)\<close>. If \<open>int(overlap_ratio * winsize)\<close> raises (\<open>OverflowError\<close>
  for an infinite product, \<open>ValueError\<close> for a NaN), the call raises the same, before
  anything else is done. Otherwise, with \<open>stride = winsize - overlap\<close>: if the stride is
  zero the call raises \<open>ValueError\<close> (from \<open>range\<close>) and the callable is not invoked; if
  it is not zero the call returns normally, having invoked the callable once per start
  offset of \<open>range(0, n, stride)\<close>, and there is no start offset, hence no invocation,
  when \<open>stride < 0\<close> or \<open>n = 0\<close>.
\<close>

theorem windowed_run_invalid_parameters:
  assumes a: "a < length (heap w)"
      and n: "n = int (length (vals (heap w ! a)))"
      and ws: "winsize = min max_winsize n"
  shows "(\<forall>e. int_of_float_times_int overlap_ratio winsize = Inl e \<longrightarrow>
            windowed_run model a max_winsize overlap_ratio dev chunk_hook w = (Inl e, w))
       \<and> (\<forall>overlap. int_of_float_times_int overlap_ratio winsize = Inr overlap \<longrightarrow>
            (winsize - overlap = 0 \<longrightarrow>
               fst (windowed_run model a max_winsize overlap_ratio dev chunk_hook w)
                 = Inl ValueError
               \<and> model_calls (snd (windowed_run model a max_winsize overlap_ratio dev chunk_hook w))
                 = model_calls w)
          \<and> (winsize - overlap \<noteq> 0 \<longrightarrow>
               (\<exists>chunks begs.
                  fst (windowed_run model a max_winsize overlap_ratio dev chunk_hook w)
                    = Inr (chunks, begs, winsize, overlap)
                  \<and> py_range 0 n (winsize - overlap) = Inr begs
                  \<and> length chunks = length begs
                  \<and> length (model_calls
                       (snd (windowed_run model a max_winsize overlap_ratio dev chunk_hook w)))
                    = length (model_calls w) + length begs
                  \<and> ((winsize - overlap < 0 \<or> n = 0) \<longrightarrow> begs = []))))"
proof (intro conjI allI impI)
  fix e assume "int_of_float_times_int overlap_ratio winsize = Inl e"
  then show "windowed_run model a max_winsize overlap_ratio dev chunk_hook w = (Inl e, w)"
    unfolding ws n by (rule windowed_run_overlap_error)
next
  fix overlap
  assume ov: "int_of_float_times_int overlap_ratio winsize = Inr overlap"
     and st: "winsize - overlap = 0"
  have ov': "int_of_float_times_int overlap_ratio
               (min max_winsize (int (length (vals (heap w ! a))))) = Inr overlap"
    using ov by (simp add: ws n)
  show "fst (windowed_run model a max_winsize overlap_ratio dev chunk_hook w) = Inl ValueError"
    unfolding windowed_run_char[OF a ov'] Let_def n[symmetric] ws[symmetric] st
    by (simp add: py_range_zero_step)
  show "model_calls (snd (windowed_run model a max_winsize overlap_ratio dev chunk_hook w))
          = model_calls w"
    unfolding windowed_run_char[OF a ov'] Let_def n[symmetric] ws[symmetric] st
    by (simp add: py_range_zero_step)
next
  fix overlap
  assume ov: "int_of_float_times_int overlap_ratio winsize = Inr overlap"
     and st: "winsize - overlap \<noteq> 0"
  have ov': "int_of_float_times_int overlap_ratio
               (min max_winsize (int (length (vals (heap w ! a))))) = Inr overlap"
    using ov by (simp add: ws n)
  obtain begs where rg: "py_range 0 n (winsize - overlap) = Inr begs"
    using st by (simp add: py_range_def Let_def)
  define bufs where "bufs = window_batches
      (zeros_like ((heap w ! a)\<lparr>vals := py_slice (vals (heap w ! a)) None (Some winsize)\<rparr>) dev)
      (vals (heap w ! a)) winsize begs"
  have run: "windowed_run model a max_winsize overlap_ratio dev chunk_hook w =
      (Inr (map (\<lambda>B. chunk_hook (model B)) bufs, begs, winsize, overlap),
       w\<lparr>heap := heap w @ [last (zeros_like ((heap w ! a)\<lparr>vals := py_slice (vals (heap w ! a))
                     None (Some winsize)\<rparr>) dev # bufs)],
         model_calls := model_calls w @ bufs\<rparr>)"
    unfolding windowed_run_char[OF a ov'] Let_def n[symmetric] ws[symmetric] rg bufs_def
    by simp
  have lb: "length bufs = length begs" by (simp add: bufs_def length_window_batches)
  have f1: "fst (windowed_run model a max_winsize overlap_ratio dev chunk_hook w)
              = Inr (map (\<lambda>B. chunk_hook (model B)) bufs, begs, winsize, overlap)"
    by (simp add: run)
  have f2: "length (map (\<lambda>B. chunk_hook (model B)) bufs) = length begs" by (simp add: lb)
  have f3: "length (model_calls
                       (snd (windowed_run model a max_winsize overlap_ratio dev chunk_hook w)))
                    = length (model_calls w) + length begs"
    by (simp add: run lb)
  have f4: "(winsize - overlap < 0 \<or> n = 0) \<longrightarrow> begs = []"
  proof
    assume c: "winsize - overlap < 0 \<or> n = 0"
    have n0: "0 \<le> n" by (simp add: n)
    have "py_range 0 n (winsize - overlap) = Inr []"
    proof (cases "winsize - overlap < 0")
      case True
      then show ?thesis using n0 by (rule py_range_neg_step)
    next
      case False
      with c have "n = 0" by simp
      then show ?thesis using st by (simp add: py_range_empty_stop)
    qed
    then show "begs = []" using rg by simp
  qed
  show "\<exists>chunks begs.
          fst (windowed_run model a max_winsize overlap_ratio dev chunk_hook w)
            = Inr (chunks, begs, winsize, overlap)
          \<and> py_range 0 n (winsize - overlap) = Inr begs
          \<and> length chunks = length begs
          \<and> length (model_calls
               (snd (windowed_run model a max_winsize overlap_ratio dev chunk_hook w)))
            = length (model_calls w) + length begs
          \<and> ((winsize - overlap < 0 \<or> n = 0) \<longrightarrow> begs = [])"
    by (intro exI conjI) (rule f1, rule rg, rule f2, rule f3, rule f4)
qed

theorem windowed_run_invalid_parameters_witness:
  "windowed_run (\<lambda>b. b) 0 3 PosInf ''cpu'' (\<lambda>r. ()) example_world
     = (Inl OverflowError, example_world)
   \<and> windowed_run (\<lambda>b. b) 0 3 (Finite (2 ^ 1023)) ''cpu'' (\<lambda>r. ()) example_world
     = (Inl OverflowError, example_world)
   \<and> windowed_run (\<lambda>b. b) 0 3 NaN ''cpu'' (\<lambda>r. ()) example_world
     = (Inl ValueError, example_world)
   \<and> fst (windowed_run (\<lambda>b. b) 0 3 (Finite 1) ''cpu'' (\<lambda>r. ()) example_world) = Inl ValueError
   \<and> model_calls (snd (windowed_run (\<lambda>b. b) 0 3 (Finite 1) ''cpu'' (\<lambda>r. ()) example_world))
     = model_calls example_world
   \<and> (\<exists>chunks begs.
         fst (windowed_run (\<lambda>b. b) 0 3 (Finite 2) ''cpu'' (\<lambda>r. ()) example_world)
           = Inr (chunks, begs, 3, 6)
         \<and> py_range 0 5 (3 - 6) = Inr begs
         \<and> length chunks = length begs
         \<and> length (model_calls
               (snd (windowed_run (\<lambda>b. b) 0 3 (Finite 2) ''cpu'' (\<lambda>r. ()) example_world)))
           = length (model_calls example_world) + length begs
         \<and> begs = [])"
proof -
  have a: "0 < length (heap example_world)"
    and n: "(5::int) = int (length (vals (heap example_world ! 0)))"
    and ws: "(3::int) = min 3 5"
    by (simp_all add: example_world_def example_signal_def)
  note t = windowed_run_invalid_parameters[OF a n ws, where model = "\<lambda>b. b"
      and dev = "''cpu''" and chunk_hook = "\<lambda>r. ()"]
  have c1: "windowed_run (\<lambda>b. b) 0 3 PosInf ''cpu'' (\<lambda>r. ()) example_world
     = (Inl OverflowError, example_world)"
    using t[of PosInf] overlap_examples(1) by blast
  have c0: "windowed_run (\<lambda>b. b) 0 3 (Finite (2 ^ 1023)) ''cpu'' (\<lambda>r. ()) example_world
     = (Inl OverflowError, example_world)"
    using t[of "Finite (2 ^ 1023)"] overlap_overflow by blast
  have c2: "windowed_run (\<lambda>b. b) 0 3 NaN ''cpu'' (\<lambda>r. ()) example_world
     = (Inl ValueError, example_world)"
    using t[of NaN] overlap_examples(2) by blast
  have c3: "fst (windowed_run (\<lambda>b. b) 0 3 (Finite 1) ''cpu'' (\<lambda>r. ()) example_world)
        = Inl ValueError
     \<and> model_calls (snd (windowed_run (\<lambda>b. b) 0 3 (Finite 1) ''cpu'' (\<lambda>r. ()) example_world))
        = model_calls example_world"
    using t[of "Finite 1"] overlap_examples(6) by simp
  have c4: "\<exists>chunks begs.
         fst (windowed_run (\<lambda>b. b) 0 3 (Finite 2) ''cpu'' (\<lambda>r. ()) example_world)
           = Inr (chunks, begs, 3, 6)
         \<and> py_range 0 5 (3 - 6) = Inr begs
         \<and> length chunks = length begs
         \<and> length (model_calls
               (snd (windowed_run (\<lambda>b. b) 0 3 (Finite 2) ''cpu'' (\<lambda>r. ()) example_world)))
           = length (model_calls example_world) + length begs
         \<and> begs = []"
    using t[of "Finite 2"] overlap_examples(7) by simp
  show ?thesis using c0 c1 c2 c3 c4 by blast
qed

text \<open>
  C5 fails as stated. With \<open>overlap_ratio = 2.0\<close> on a five-sample signal and
  \<open>max_winsize = 3\<close> the stride is \<open>-3\<close>, and the call does not fail: it returns empty
  lists. With \<open>max_winsize = -2\<close> and the same ratio the window size is \<open>-2\<close>, the
  overlap \<open>-4\<close> and the stride 2, and the call does not fail either; it invokes the
  callable three times, on a batch of the three samples of \<open>tnsr[:-2]\<close> and twice on
  zeros.
\<close>

theorem windowed_run_negative_stride_counterexample:
  "fst (windowed_run (\<lambda>b. b) 0 3 (Finite 2) ''cpu'' (\<lambda>r. ()) example_world)
     = Inr ([], [], 3, 6)
   \<and> min 3 (int (length (vals (heap example_world ! 0)))) - 6 \<le> (0::int)
   \<and> windowed_run (\<lambda>b. b) 0 (- 2) (Finite 2) ''cpu'' (\<lambda>r. ()) example_world
     = (Inr ([(), (), ()], [0, 2, 4], - 2, - 4),
        \<lparr>heap = [example_signal,
                 \<lparr>vals = [Finite 0, Finite 0, Finite 0], dtype = Float32, device = ''cpu''\<rparr>],
         model_calls =
           [\<lparr>vals = [Finite 1, Finite 2, Finite 3], dtype = Float32, device = ''cpu''\<rparr>,
            \<lparr>vals = [Finite 0, Finite 0, Finite 0], dtype = Float32, device = ''cpu''\<rparr>,
            \<lparr>vals = [Finite 0, Finite 0, Finite 0], dtype = Float32, device = ''cpu''\<rparr>]\<rparr>)
   \<and> min (- 2) (int (length (vals (heap example_world ! 0)))) \<le> (0::int)"
  by code_simp

subsection \<open>Window buffers\<close>

lemma py_slice_nonneg:
  "0 \<le> i \<Longrightarrow> 0 \<le> j \<Longrightarrow>
   py_slice xs (Some i) (Some j) = take (min (nat j) (length xs) - min (nat i) (length xs))
                                     (drop (min (nat i) (length xs)) xs)"
  by (simp add: py_slice_unfold py_index_nonneg)

lemma window_shape:
  assumes ws: "1 \<le> winsize" "winsize \<le> int (length xs)"
      and beg: "0 \<le> beg" "beg < int (length xs)"
  shows "length (py_slice xs (Some beg) (Some (beg + winsize))) \<le> nat winsize"
    and "int (length xs) < beg + winsize \<Longrightarrow>
         py_slice xs (Some beg) (Some (beg + winsize))
           = py_slice xs (Some beg) (Some (int (length xs)))"
    and "int (length xs) < beg + winsize \<Longrightarrow>
         nat winsize - length (py_slice xs (Some beg) (Some (beg + winsize)))
           = nat (beg + winsize - int (length xs))"
proof -
  define chunk where "chunk = py_slice xs (Some beg) (Some (beg + winsize))"
  have e: "0 \<le> beg + winsize" using ws beg by simp
  have chunk: "chunk = take (min (nat (beg + winsize)) (length xs) - nat beg) (drop (nat beg) xs)"
    unfolding chunk_def py_slice_nonneg[OF beg(1) e] using beg by (simp add: min_def)
  show "length (py_slice xs (Some beg) (Some (beg + winsize))) \<le> nat winsize"
    unfolding chunk_def[symmetric] chunk using ws beg by (simp add: min_def) linarith
  assume over: "int (length xs) < beg + winsize"
  have n0: "0 \<le> int (length xs)" by simp
  have m1: "min (nat (beg + winsize)) (length xs) = length xs" using over by linarith
  have m2: "min (nat beg) (length xs) = nat beg" using beg by linarith
  show c2: "py_slice xs (Some beg) (Some (beg + winsize))
           = py_slice xs (Some beg) (Some (int (length xs)))"
    unfolding chunk_def[symmetric] chunk py_slice_nonneg[OF beg(1) n0] m1 m2 by simp
  have l2: "length chunk = length xs - nat beg"
    unfolding chunk m1 by simp
  show "nat winsize - length (py_slice xs (Some beg) (Some (beg + winsize)))
           = nat (beg + winsize - int (length xs))"
    unfolding chunk_def[symmetric] l2 using over beg ws by linarith
qed

text \<open>Zeroing by multiplication works on finite samples, and only on them.\<close>

lemma sample_mul_zero:
  "sample_mul x (Finite 0) = (if is_finite x then Finite 0 else NaN)"
  by (cases x) (simp_all add: sample_mul_def is_finite_def inf_of_sign_def ieee_sgn_def)

lemma window_batch_finite:
  assumes "\<forall>x\<in>set (vals bt). is_finite x"
  shows "vals (window_batch bt xs ws beg) =
           py_slice xs (Some beg) (Some (beg + ws))
             @ replicate (length (vals bt) - length (py_slice xs (Some beg) (Some (beg + ws))))
                 (Finite 0)"
proof -
  have "map (\<lambda>x. sample_mul x (Finite 0)) (vals bt) = map (\<lambda>x. Finite 0) (vals bt)"
    by (rule map_cong[OF refl]) (use assms in \<open>simp add: sample_mul_zero\<close>)
  also have "\<dots> = replicate (length (vals bt)) (Finite 0)" by (simp add: map_replicate_const)
  finally show ?thesis by (simp add: window_batch_def Let_def)
qed

lemma window_batches_finite:
  assumes "\<forall>x\<in>set xs. is_finite x" "\<forall>x\<in>set (vals bt). is_finite x"
      and "\<forall>beg\<in>set begs. 0 \<le> beg"
      and "length (vals bt) = length (py_slice xs None (Some ws))"
      and "k < length begs"
  shows "vals (window_batches bt xs ws begs ! k) =
           py_slice xs (Some (begs ! k)) (Some (begs ! k + ws))
             @ replicate (length (vals bt)
                            - length (py_slice xs (Some (begs ! k)) (Some (begs ! k + ws))))
                 (Finite 0)"
  using assms
proof (induction begs arbitrary: bt k)
  case Nil
  then show ?case by simp
next
  case (Cons beg begs)
  define B where "B = window_batch bt xs ws beg"
  have vB: "vals B = py_slice xs (Some beg) (Some (beg + ws))
             @ replicate (length (vals bt) - length (py_slice xs (Some beg) (Some (beg + ws))))
                 (Finite 0)"
    unfolding B_def by (rule window_batch_finite[OF Cons.prems(2)])
  show ?case
  proof (cases k)
    case 0
    then show ?thesis using vB by (simp add: B_def)
  next
    case (Suc k')
    have beg: "0 \<le> beg" using Cons.prems(3) by simp
    have fit: "length (py_slice xs (Some beg) (Some (beg + ws))) \<le> length (vals bt)"
      unfolding Cons.prems(4) by (rule chunk_fits[OF beg])
    have lB: "length (vals B) = length (vals bt)"
      unfolding B_def by (rule length_window_batch[OF fit])
    have fB: "\<forall>x\<in>set (vals B). is_finite x"
      unfolding vB using Cons.prems(1) set_py_slice[of xs "Some beg" "Some (beg + ws)"]
      by (auto simp: is_finite_def)
    have p3: "\<forall>beg\<in>set begs. 0 \<le> beg" using Cons.prems(3) by simp
    have p4: "length (vals B) = length (py_slice xs None (Some ws))"
      unfolding lB by (rule Cons.prems(4))
    have p5: "k' < length begs" using Cons.prems(5) Suc by simp
    show ?thesis
      using Cons.IH[OF Cons.prems(1) fB p3 p4 p5]
      by (simp add: Suc B_def[symmetric] lB)
  qed
qed

text \<open>
  What holds of the buffers in every valid run: the callable is invoked once per start
  offset, in order, and every buffer it receives has exactly \<open>winsize\<close> samples. On a
  signal whose samples are all finite the buffer is \<open>signal[start : start + winsize]\<close>
  followed by zeros, and for a window with \<open>start + winsize > n\<close> it is
  \<open>signal[start : n]\<close> followed by \<open>start + winsize - n\<close> zeros.
\<close>

lemma windowed_run_window_buffers_finite:
  assumes a: "a < length (heap w)"
      and n: "1 \<le> length (vals (heap w ! a))"
      and mw: "1 \<le> max_winsize"
      and sz: "min max_winsize (int (length (vals (heap w ! a)))) < 2 ^ 53"
      and r: "is_double overlap_ratio" "0 \<le> overlap_ratio" "overlap_ratio < 1"
  shows "\<exists>chunks begs winsize overlap w' bufs.
           windowed_run model a max_winsize (Finite overlap_ratio) dev chunk_hook w
             = (Inr (chunks, begs, winsize, overlap), w')
           \<and> winsize = min max_winsize (int (length (vals (heap w ! a))))
           \<and> model_calls w' = model_calls w @ bufs
           \<and> length bufs = length begs
           \<and> chunks = map (\<lambda>buf. chunk_hook (model buf)) bufs
           \<and> (\<forall>k<length begs. length (vals (bufs ! k)) = nat winsize)
           \<and> ((\<forall>x\<in>set (vals (heap w ! a)). is_finite x) \<longrightarrow>
                (\<forall>k<length begs.
                   vals (bufs ! k) =
                     py_slice (vals (heap w ! a)) (Some (begs ! k)) (Some (begs ! k + winsize))
                       @ replicate (nat winsize - length (py_slice (vals (heap w ! a))
                            (Some (begs ! k)) (Some (begs ! k + winsize)))) (Finite 0)
                   \<and> (int (length (vals (heap w ! a))) < begs ! k + winsize \<longrightarrow>
                        vals (bufs ! k) =
                          py_slice (vals (heap w ! a)) (Some (begs ! k))
                              (Some (int (length (vals (heap w ! a)))))
                            @ replicate (nat (begs ! k + winsize
                                - int (length (vals (heap w ! a))))) (Finite 0))))"
proof -
  define xs where "xs = vals (heap w ! a)"
  define n where "n = int (length xs)"
  define winsize where "winsize = min max_winsize n"
  define Z where "Z = zero_batch (heap w ! a) winsize dev"
  obtain overlap where ovw: "overlap < winsize"
    and ws1: "1 \<le> winsize"
    and run: "windowed_run model a max_winsize (Finite overlap_ratio) dev chunk_hook w =
         (Inr (map (\<lambda>B. chunk_hook (model B))
                 (window_batches Z xs winsize (window_starts n (winsize - overlap))),
               window_starts n (winsize - overlap), winsize, overlap),
          w\<lparr>heap := heap w @
                [last (window_batches Z xs winsize (window_starts n (winsize - overlap)))],
            model_calls := model_calls w @
                window_batches Z xs winsize (window_starts n (winsize - overlap))\<rparr>)"
    using windowed_run_valid[OF a n mw sz r n_def[unfolded xs_def] winsize_def,
        where model = model and dev = dev and chunk_hook = chunk_hook]
    unfolding xs_def[symmetric] Z_def[symmetric] by blast
  define stride where "stride = winsize - overlap"
  define begs where "begs = window_starts n stride"
  define bufs where "bufs = window_batches Z xs winsize begs"
  have n1: "1 \<le> n" using n by (simp add: n_def xs_def)
  have st0: "0 < stride" using ovw by (simp add: stride_def)
  have wsn: "winsize \<le> int (length xs)" by (simp add: winsize_def n_def)
  have "py_slice xs None (Some (int (nat winsize))) = take (nat winsize) xs"
    by (rule py_slice_prefix)
  then have lp: "length (py_slice xs None (Some winsize)) = nat winsize"
    using ws1 wsn by simp
  have lenZ: "length (vals Z) = nat winsize"
    by (simp add: Z_def zero_batch_def zeros_like_def lp xs_def[symmetric])
  have finZ: "\<forall>x\<in>set (vals Z). is_finite x"
    by (simp add: Z_def zero_batch_def zeros_like_def is_finite_def)
  have begs_range: "0 \<le> beg \<and> beg < n" if "beg \<in> set begs" for beg
    using that window_starts_props(4)[OF st0 n1] unfolding begs_def by simp
  have nn: "\<forall>beg\<in>set begs. 0 \<le> beg" using begs_range by blast
  have lZ: "length (vals Z) = length (py_slice xs None (Some winsize))"
    unfolding lenZ lp ..
  have lb: "length bufs = length begs" by (simp add: bufs_def length_window_batches)
  have run': "windowed_run model a max_winsize (Finite overlap_ratio) dev chunk_hook w =
         (Inr (map (\<lambda>B. chunk_hook (model B)) bufs, begs, winsize, overlap),
          w\<lparr>heap := heap w @ [last bufs], model_calls := model_calls w @ bufs\<rparr>)"
    using run unfolding stride_def[symmetric] begs_def[symmetric] bufs_def[symmetric] .
  have mc: "model_calls (w\<lparr>heap := heap w @ [last bufs], model_calls := model_calls w @ bufs\<rparr>)
              = model_calls w @ bufs" by simp
  have lens: "\<forall>k<length begs. length (vals (bufs ! k)) = nat winsize"
  proof (intro allI impI)
    fix k assume "k < length begs"
    then have "bufs ! k \<in> set bufs" using lb by simp
    then have "length (vals (bufs ! k)) = length (vals Z)"
      using window_batches_frame[OF nn lZ] unfolding bufs_def by blast
    then show "length (vals (bufs ! k)) = nat winsize" by (simp add: lenZ)
  qed
  have pad: "(\<forall>x\<in>set xs. is_finite x) \<longrightarrow>
                (\<forall>k<length begs.
                   vals (bufs ! k) =
                     py_slice xs (Some (begs ! k)) (Some (begs ! k + winsize))
                       @ replicate (nat winsize - length (py_slice xs
                            (Some (begs ! k)) (Some (begs ! k + winsize)))) (Finite 0)
                   \<and> (int (length xs) < begs ! k + winsize \<longrightarrow>
                        vals (bufs ! k) =
                          py_slice xs (Some (begs ! k)) (Some (int (length xs)))
                            @ replicate (nat (begs ! k + winsize - int (length xs))) (Finite 0)))"
  proof (intro impI allI)
    fix k assume fin: "\<forall>x\<in>set xs. is_finite x" and k: "k < length begs"
    have "begs ! k \<in> set begs" using k by simp
    then have b: "0 \<le> begs ! k" "begs ! k < int (length xs)"
      using begs_range unfolding n_def by simp_all
    have v: "vals (bufs ! k) =
                     py_slice xs (Some (begs ! k)) (Some (begs ! k + winsize))
                       @ replicate (nat winsize - length (py_slice xs
                            (Some (begs ! k)) (Some (begs ! k + winsize)))) (Finite 0)"
      using window_batches_finite[OF fin finZ nn lZ k] unfolding bufs_def lenZ .
    have o: "vals (bufs ! k) =
                          py_slice xs (Some (begs ! k)) (Some (int (length xs)))
                            @ replicate (nat (begs ! k + winsize - int (length xs))) (Finite 0)"
      if over: "int (length xs) < begs ! k + winsize"
    proof -
      have c: "py_slice xs (Some (begs ! k)) (Some (begs ! k + winsize))
                 = py_slice xs (Some (begs ! k)) (Some (int (length xs)))"
        by (rule window_shape(2)[OF ws1 wsn b over])
      have l: "nat winsize - length (py_slice xs (Some (begs ! k)) (Some (int (length xs))))
                 = nat (begs ! k + winsize - int (length xs))"
        using window_shape(3)[OF ws1 wsn b over] unfolding c .
      show ?thesis unfolding v c l ..
    qed
    show "vals (bufs ! k) =
                     py_slice xs (Some (begs ! k)) (Some (begs ! k + winsize))
                       @ replicate (nat winsize - length (py_slice xs
                            (Some (begs ! k)) (Some (begs ! k + winsize)))) (Finite 0)
                   \<and> (int (length xs) < begs ! k + winsize \<longrightarrow>
                        vals (bufs ! k) =
                          py_slice xs (Some (begs ! k)) (Some (int (length xs)))
                            @ replicate (nat (begs ! k + winsize - int (length xs))) (Finite 0))"
      using v o by blast
  qed
  have wdef: "winsize = min max_winsize (int (length xs))"
    by (simp add: winsize_def n_def)
  show ?thesis
    unfolding xs_def[symmetric]
    by (intro exI conjI) (rule run', rule wdef, rule mc, rule lb, rule refl, rule lens, rule pad)
qed

text \<open>
  C6, evaluated. The signal \<open>1, 2, 3, inf, 5\<close> is cut into windows of three samples
  that start at 0, 2 and 4. The second batch holds the infinite sample at position 1,
  and \<open>batch *= 0\<close> turns it into a NaN, not into a zero; the last window has one
  sample, so the last batch is \<open>5, NaN, 0\<close>, where the claim has
  \<open>signal[4:5]\<close> followed by two zeros. On the signal of five NaNs that \<open>read_audio\<close>
  makes of a constant recording, the last batch is all NaN. Every batch has three
  samples, as the claim says.
\<close>

theorem windowed_run_nan_padding:
  "windowed_run (\<lambda>b. b) 0 3 (Finite (1 / 2)) ''cpu'' (\<lambda>r. ()) inf_world
     = (Inr ([(), (), ()], [0, 2, 4], 3, 1),
        \<lparr>heap = [\<lparr>vals = [Finite 1, Finite 2, Finite 3, PosInf, Finite 5],
                   dtype = Float32, device = ''cpu''\<rparr>,
                 \<lparr>vals = [Finite 5, NaN, Finite 0], dtype = Float32, device = ''cpu''\<rparr>],
         model_calls =
           [\<lparr>vals = [Finite 1, Finite 2, Finite 3], dtype = Float32, device = ''cpu''\<rparr>,
            \<lparr>vals = [Finite 3, PosInf, Finite 5], dtype = Float32, device = ''cpu''\<rparr>,
            \<lparr>vals = [Finite 5, NaN, Finite 0], dtype = Float32, device = ''cpu''\<rparr>]\<rparr>)
   \<and> py_slice (vals (heap inf_world ! 0)) (Some 4) (Some 5) @ replicate (nat (4 + 3 - 5)) (Finite 0)
     = [Finite 5, Finite 0, Finite 0]
   \<and> model_calls (snd (windowed_run (\<lambda>b. b) 0 3 (Finite (1 / 2)) ''cpu'' (\<lambda>r. ()) nan_world))
     = [\<lparr>vals = [NaN, NaN, NaN], dtype = Float32, device = ''cpu''\<rparr>,
        \<lparr>vals = [NaN, NaN, NaN], dtype = Float32, device = ''cpu''\<rparr>,
        \<lparr>vals = [NaN, NaN, NaN], dtype = Float32, device = ''cpu''\<rparr>]"
  by code_simp

subsection \<open>Text stitching\<close>

lemma windowed_run_loop_length:
  "windowed_run_loop model chunk_hook a b winsize begs chunks w = (Inr cs, w2) \<Longrightarrow>
   length cs = length chunks + length begs"
proof (induction begs arbitrary: chunks w)
  case Nil
  then show ?case by simp
next
  case (Cons beg begs)
  from Cons.prems show ?case
    by (auto simp: Let_def split: sum.splits dest!: Cons.IH)
qed

lemma windowed_run_length:
  assumes "windowed_run model a max_winsize overlap_ratio dev chunk_hook w
             = (Inr (chunks, begs, winsize, overlap), w')"
  shows "length chunks = length begs"
  using assms unfolding windowed_run_def Let_def
  by (auto split: sum.splits prod.splits dest!: windowed_run_loop_length)

lemma stt_merge_loop_snoc:
  "stt_merge_loop thresh max_chars (chunks @ [ch]) merged match_scores =
     (case stt_merge_loop thresh max_chars chunks merged match_scores of
        (mg, sc) \<Rightarrow>
          (case merge_overlapping_strings mg ch thresh (Some max_chars) of
             (mg', _, s) \<Rightarrow> (mg', sc @ [s])))"
  by (induction chunks arbitrary: merged match_scores) (auto split: prod.splits)

lemma stt_merge_loop_length:
  "length (snd (stt_merge_loop thresh max_chars chunks merged match_scores))
     = length match_scores + length chunks"
  by (induction chunks arbitrary: merged match_scores) (auto split: prod.splits)

lemma stt_merge_loop_scores:
  "\<exists>rest. snd (stt_merge_loop thresh max_chars chunks merged match_scores)
             = match_scores @ rest"
proof (induction chunks arbitrary: merged match_scores)
  case Nil
  then show ?case by simp
next
  case (Cons ch chunks)
  obtain mg m s where m: "merge_overlapping_strings merged ch thresh (Some max_chars) = (mg, m, s)"
    by (cases "merge_overlapping_strings merged ch thresh (Some max_chars)")
  obtain rest where "snd (stt_merge_loop thresh max_chars chunks mg (match_scores @ [s]))
                       = (match_scores @ [s]) @ rest"
    using Cons.IH by blast
  then show ?case by (simp add: m)
qed

lemma stt_merge_loop_nth:
  "j < length chunks \<Longrightarrow>
   snd (stt_merge_loop thresh max_chars chunks [] []) ! j =
     snd (snd (merge_overlapping_strings
                 (fst (stt_merge_loop thresh max_chars (take j chunks) [] []))
                 (chunks ! j) thresh (Some max_chars)))"
proof (induction chunks arbitrary: j rule: rev_induct)
  case Nil
  then show ?case by simp
next
  case (snoc ch chunks)
  obtain mg sc where l: "stt_merge_loop thresh max_chars chunks [] [] = (mg, sc)"
    by (cases "stt_merge_loop thresh max_chars chunks [] []")
  obtain mg' m s where m: "merge_overlapping_strings mg ch thresh (Some max_chars) = (mg', m, s)"
    by (cases "merge_overlapping_strings mg ch thresh (Some max_chars)")
  have len: "length sc = length chunks"
    using stt_merge_loop_length[of thresh max_chars chunks "[]" "[]"] by (simp add: l)
  have all: "stt_merge_loop thresh max_chars (chunks @ [ch]) [] [] = (mg', sc @ [s])"
    by (simp add: stt_merge_loop_snoc l m)
  show ?case
  proof (cases "j < length chunks")
    case True
    then show ?thesis
      using snoc.IH[OF True] by (simp add: all l len nth_append)
  next
    case False
    with snoc.prems have j: "j = length chunks" by simp
    have "(sc @ [s]) ! length chunks = s" unfolding len[symmetric] by simp
    moreover have "(chunks @ [ch]) ! length chunks = ch" by simp
    ultimately show ?thesis unfolding j all by (simp add: l m)
  qed
qed

lemma Levenshtein_ratio_empty_left:
  "Levenshtein_ratio [] ys = (if ys = [] then 1 else 0)"
  by (simp add: Levenshtein_ratio_def)

lemma merge_into_empty:
  assumes t: "0 < thresh" "thresh \<le> 1" and mr: "0 < max_range"
  shows "\<exists>match. merge_overlapping_strings [] ch thresh (Some max_range) = (ch, match, 1)"
proof -
  define sim where "sim = (\<lambda>i. Levenshtein_ratio [] (take i ch))"
  define Q where "Q = {i. i < nat max_range \<and> thresh \<le> sim i}"
  have eq: "merge_overlapping_strings [] ch thresh (Some max_range) =
      (if Q = {} then ([] @ ch, 0, - 1) else ([] @ drop (Max Q) ch, int (Max Q), sim (Max Q)))"
  proof -
    have s: "(\<lambda>i. Levenshtein_ratio (if i = 0 then [] else drop (length ([]::string) - i) [])
                  (take i ch)) = sim"
      by (rule ext) (simp add: sim_def)
    show ?thesis
      unfolding merge_overlapping_strings_char[of "[]" ch thresh "Some max_range"]
        Let_def option.case s Q_def[symmetric] ..
  qed
  have fin: "finite Q" by (simp add: Q_def)
  have "sim 0 = 1" by (simp add: sim_def Levenshtein_ratio_empty_left)
  then have "0 \<in> Q" using t mr by (simp add: Q_def)
  then have ne: "Q \<noteq> {}" by blast
  have "Max Q \<in> Q" using fin ne by (rule Max_in)
  then have "thresh \<le> sim (Max Q)" by (simp add: Q_def)
  then have "0 < sim (Max Q)" using t by simp
  then have tk: "take (Max Q) ch = []" and s1: "sim (Max Q) = 1"
    by (simp_all add: sim_def Levenshtein_ratio_empty_left split: if_splits)
  from tk have "drop (Max Q) ch = ch" by (cases "Max Q = 0") simp_all
  then show ?thesis unfolding eq using ne s1 by simp
qed

text \<open>
  C4 (as amended). A run of \<open>windowed_stt_rendering\<close> that returns gives one score per
  window: \<open>match_scores\<close> has exactly as many entries as there are windows, and its
  entry \<open>j\<close> is the score of merging the text of window \<open>j\<close> into the texts merged
  before it. The first window is merged too, into the empty accumulator.
\<close>

theorem windowed_stt_rendering_one_score_per_window:
  assumes "windowed_stt_rendering model a max_winsize overlap_ratio dev thresh max_chars w
             = (Inr (merged, match_scores), w')"
  shows "\<exists>chunks begs winsize overlap.
           windowed_run model a max_winsize overlap_ratio dev fst w
             = (Inr (chunks, begs, winsize, overlap), w')
           \<and> length chunks = length begs
           \<and> length match_scores = length begs
           \<and> (\<forall>j<length chunks.
                 match_scores ! j =
                   snd (snd (merge_overlapping_strings
                               (fst (stt_merge_loop thresh max_chars (take j chunks) [] []))
                               (chunks ! j) thresh (Some max_chars))))"
proof -
  obtain res w1 where run: "windowed_run model a max_winsize overlap_ratio dev fst w = (res, w1)"
    by (cases "windowed_run model a max_winsize overlap_ratio dev fst w")
  from assms obtain chunks begs winsize overlap where
    res: "res = Inr (chunks, begs, winsize, overlap)" and w1: "w1 = w'"
    and out: "stt_merge_loop thresh max_chars chunks [] [] = (merged, match_scores)"
    unfolding windowed_stt_rendering_def run by (auto split: sum.splits)
  have run': "windowed_run model a max_winsize overlap_ratio dev fst w
             = (Inr (chunks, begs, winsize, overlap), w')"
    by (simp add: run res w1)
  have len: "length chunks = length begs" by (rule windowed_run_length[OF run'])
  have ls: "length match_scores = length begs"
    using stt_merge_loop_length[of thresh max_chars chunks "[]" "[]"] by (simp add: out len)
  have nth: "\<forall>j<length chunks.
                 match_scores ! j =
                   snd (snd (merge_overlapping_strings
                               (fst (stt_merge_loop thresh max_chars (take j chunks) [] []))
                               (chunks ! j) thresh (Some max_chars)))"
    using stt_merge_loop_nth[of _ chunks thresh max_chars] by (simp add: out)
  show ?thesis
    by (intro exI conjI) (rule run', rule len, rule ls, rule nth)
qed

lemma example_stt_run:
  "windowed_run (\<lambda>b. (''hi'', ())) 0 3 (Finite (1 / 2)) ''cpu'' fst example_world
     = (Inr ([''hi'', ''hi'', ''hi''], [0, 2, 4], 3, 1),
        \<lparr>heap = [\<lparr>vals = [Finite 1, Finite 2, Finite 3, Finite 4, Finite 5],
                   dtype = Float32, device = ''cpu''\<rparr>,
                 \<lparr>vals = [Finite 5, Finite 0, Finite 0], dtype = Float32, device = ''cpu''\<rparr>],
         model_calls =
           [\<lparr>vals = [Finite 1, Finite 2, Finite 3], dtype = Float32, device = ''cpu''\<rparr>,
            \<lparr>vals = [Finite 3, Finite 4, Finite 5], dtype = Float32, device = ''cpu''\<rparr>,
            \<lparr>vals = [Finite 5, Finite 0, Finite 0], dtype = Float32, device = ''cpu''\<rparr>]\<rparr>)"
  by code_simp

lemma example_stt_rendering:
  "windowed_stt_rendering (\<lambda>b. (''hi'', ())) 0 3 (Finite (1 / 2)) ''cpu'' (8 / 10) 10
       example_world
     = (Inr (''hi'', [1, 1, 1]),
        \<lparr>heap = [\<lparr>vals = [Finite 1, Finite 2, Finite 3, Finite 4, Finite 5],
                   dtype = Float32, device = ''cpu''\<rparr>,
                 \<lparr>vals = [Finite 5, Finite 0, Finite 0], dtype = Float32, device = ''cpu''\<rparr>],
         model_calls =
           [\<lparr>vals = [Finite 1, Finite 2, Finite 3], dtype = Float32, device = ''cpu''\<rparr>,
            \<lparr>vals = [Finite 3, Finite 4, Finite 5], dtype = Float32, device = ''cpu''\<rparr>,
            \<lparr>vals = [Finite 5, Finite 0, Finite 0], dtype = Float32, device = ''cpu''\<rparr>]\<rparr>)"
  by code_simp

theorem windowed_stt_rendering_one_score_per_window_witness:
  "\<exists>chunks begs winsize overlap.
           windowed_run (\<lambda>b. (''hi'', ())) 0 3 (Finite (1 / 2)) ''cpu'' fst example_world
             = (Inr (chunks, begs, winsize, overlap),
                \<lparr>heap = [\<lparr>vals = [Finite 1, Finite 2, Finite 3, Finite 4, Finite 5],
                           dtype = Float32, device = ''cpu''\<rparr>,
                         \<lparr>vals = [Finite 5, Finite 0, Finite 0],
                           dtype = Float32, device = ''cpu''\<rparr>],
                 model_calls =
                   [\<lparr>vals = [Finite 1, Finite 2, Finite 3], dtype = Float32, device = ''cpu''\<rparr>,
                    \<lparr>vals = [Finite 3, Finite 4, Finite 5], dtype = Float32, device = ''cpu''\<rparr>,
                    \<lparr>vals = [Finite 5, Finite 0, Finite 0],
                      dtype = Float32, device = ''cpu''\<rparr>]\<rparr>)
           \<and> length chunks = length begs
           \<and> length [1, 1, 1 :: rat] = length begs
           \<and> (\<forall>j<length chunks.
                 [1, 1, 1] ! j =
                   snd (snd (merge_overlapping_strings
                               (fst (stt_merge_loop (8 / 10) 10 (take j chunks) [] []))
                               (chunks ! j) (8 / 10) (Some 10))))"
  by (rule windowed_stt_rendering_one_score_per_window[OF example_stt_rendering])

text \<open>
  C4 fails as stated: a run with a single window returns one score, not none.
\<close>

theorem windowed_stt_rendering_single_window_counterexample:
  "fst (windowed_run (\<lambda>b. (''hi'', ())) 0 5 (Finite 0) ''cpu'' fst example_world)
     = Inr ([''hi''], [0], 5, 0)
   \<and> fst (windowed_stt_rendering (\<lambda>b. (''hi'', ())) 0 5 (Finite 0) ''cpu'' (8 / 10) 10
            example_world)
     = Inr (''hi'', [1])"
  by code_simp

text \<open>
  C10. With \<open>0 < thresh \<le> 1\<close>, a positive \<open>max_overlap_characters\<close> and at least one
  window: the first step of \<open>windowed_stt_rendering\<close> merges the first text into the
  empty accumulator, where the candidate 0 compares the empty string with the empty
  string; its score is 1 and the merged string after it is the first text unchanged.
  What \<open>windowed_stt_rendering\<close> returns is what the merging loop makes of the remaining
  texts from that state (the first text, the scores \<open>[1]\<close>): the scores it returns
  begin with 1 and have one entry per window, and with a single window the result is
  the first text and the scores \<open>[1]\<close>.
\<close>

theorem first_match_score_is_one:
  assumes t: "0 < thresh" "thresh \<le> 1" and mc: "0 < max_chars"
      and run: "windowed_run model a max_winsize overlap_ratio dev fst w
                  = (Inr (chunks, begs, winsize, overlap), w1)"
      and ne: "chunks \<noteq> []"
  shows "\<exists>merged match_scores match rest.
           windowed_stt_rendering model a max_winsize overlap_ratio dev thresh max_chars w
             = (Inr (merged, match_scores), w1)
           \<and> (merged, match_scores)
               = stt_merge_loop thresh max_chars (tl chunks) (hd chunks) [1]
           \<and> merge_overlapping_strings [] (hd chunks) thresh (Some max_chars)
               = (hd chunks, match, 1)
           \<and> match_scores = 1 # rest \<and> length match_scores = length chunks
           \<and> hd match_scores = 1
           \<and> (if tl chunks = [] then merged = hd chunks \<and> match_scores = [1]
               else (merged, match_scores)
                      = stt_merge_loop thresh max_chars (tl (tl chunks))
                          (fst (merge_overlapping_strings (hd chunks) (hd (tl chunks)) thresh
                                  (Some max_chars)))
                          [1, snd (snd (merge_overlapping_strings (hd chunks) (hd (tl chunks))
                                          thresh (Some max_chars)))])"
proof -
  obtain ch rest where c: "chunks = ch # rest" using ne by (cases chunks) auto
  obtain match where m: "merge_overlapping_strings [] ch thresh (Some max_chars) = (ch, match, 1)"
    using merge_into_empty[OF t mc] by blast
  obtain merged match_scores where
    l: "stt_merge_loop thresh max_chars rest ch [1] = (merged, match_scores)"
    by (cases "stt_merge_loop thresh max_chars rest ch [1]")
  have step: "stt_merge_loop thresh max_chars chunks [] [] = (merged, match_scores)"
    by (simp add: c m l)
  obtain sc where sc: "match_scores = [1] @ sc"
    using stt_merge_loop_scores[of thresh max_chars rest ch "[1]"] by (auto simp: l)
  have r: "windowed_stt_rendering model a max_winsize overlap_ratio dev thresh max_chars w
             = (Inr (merged, match_scores), w1)"
    by (simp add: windowed_stt_rendering_def run step)
  have e: "(merged, match_scores) = stt_merge_loop thresh max_chars (tl chunks) (hd chunks) [1]"
    by (simp add: c l)
  have m': "merge_overlapping_strings [] (hd chunks) thresh (Some max_chars)
               = (hd chunks, match, 1)" by (simp add: c m)
  have s1: "match_scores = 1 # sc" using sc by simp
  have lp: "length match_scores = length chunks"
    using stt_merge_loop_length[of thresh max_chars chunks "[]" "[]"] by (simp add: step)
  have h1: "hd match_scores = 1" by (simp add: s1)
  have nx: "if tl chunks = [] then merged = hd chunks \<and> match_scores = [1]
               else (merged, match_scores)
                      = stt_merge_loop thresh max_chars (tl (tl chunks))
                          (fst (merge_overlapping_strings (hd chunks) (hd (tl chunks)) thresh
                                  (Some max_chars)))
                          [1, snd (snd (merge_overlapping_strings (hd chunks) (hd (tl chunks))
                                          thresh (Some max_chars)))]"
  proof (cases rest)
    case Nil
    then show ?thesis using l by (simp add: c)
  next
    case (Cons ch2 rest2)
    then show ?thesis using l by (simp add: c split: prod.splits)
  qed
  show ?thesis
    by (intro exI conjI) (rule r, rule e, rule m', rule s1, rule lp, rule h1, rule nx)
qed

theorem first_match_score_is_one_witness:
  "(\<exists>merged match_scores match rest.
           windowed_stt_rendering (\<lambda>b. (''hi'', ())) 0 3 (Finite (1 / 2)) ''cpu'' (8 / 10) 10
               example_world
             = (Inr (merged, match_scores),
                \<lparr>heap = [\<lparr>vals = [Finite 1, Finite 2, Finite 3, Finite 4, Finite 5],
                           dtype = Float32, device = ''cpu''\<rparr>,
                         \<lparr>vals = [Finite 5, Finite 0, Finite 0],
                           dtype = Float32, device = ''cpu''\<rparr>],
                 model_calls =
                   [\<lparr>vals = [Finite 1, Finite 2, Finite 3], dtype = Float32, device = ''cpu''\<rparr>,
                    \<lparr>vals = [Finite 3, Finite 4, Finite 5], dtype = Float32, device = ''cpu''\<rparr>,
                    \<lparr>vals = [Finite 5, Finite 0, Finite 0],
                      dtype = Float32, device = ''cpu''\<rparr>]\<rparr>)
           \<and> (merged, match_scores)
               = stt_merge_loop (8 / 10) 10 (tl [''hi'', ''hi'', ''hi''])
                   (hd [''hi'', ''hi'', ''hi'']) [1]
           \<and> merge_overlapping_strings [] (hd [''hi'', ''hi'', ''hi'']) (8 / 10) (Some 10)
               = (hd [''hi'', ''hi'', ''hi''], match, 1)
           \<and> match_scores = 1 # rest \<and> length match_scores = length [''hi'', ''hi'', ''hi'']
           \<and> hd match_scores = 1
           \<and> (if tl [''hi'', ''hi'', ''hi''] = []
               then merged = hd [''hi'', ''hi'', ''hi''] \<and> match_scores = [1]
               else (merged, match_scores)
                      = stt_merge_loop (8 / 10) 10 (tl (tl [''hi'', ''hi'', ''hi'']))
                          (fst (merge_overlapping_strings (hd [''hi'', ''hi'', ''hi''])
                                  (hd (tl [''hi'', ''hi'', ''hi''])) (8 / 10) (Some 10)))
                          [1, snd (snd (merge_overlapping_strings (hd [''hi'', ''hi'', ''hi''])
                                          (hd (tl [''hi'', ''hi'', ''hi''])) (8 / 10)
                                          (Some 10)))]))
   \<and> fst (windowed_stt_rendering (\<lambda>b. (''hi'', ())) 0 3 (Finite (1 / 2)) ''cpu'' (8 / 10) 10
            example_world) = Inr (''hi'', [1, 1, 1])
   \<and> fst (windowed_stt_rendering (\<lambda>b. (''hi'', ())) 0 5 (Finite 0) ''cpu'' (8 / 10) 10
            example_world) = Inr (''hi'', [1])"
proof (intro conjI)
  show "\<exists>merged match_scores match rest.
           windowed_stt_rendering (\<lambda>b. (''hi'', ())) 0 3 (Finite (1 / 2)) ''cpu'' (8 / 10) 10
               example_world
             = (Inr (merged, match_scores),
                \<lparr>heap = [\<lparr>vals = [Finite 1, Finite 2, Finite 3, Finite 4, Finite 5],
                           dtype = Float32, device = ''cpu''\<rparr>,
                         \<lparr>vals = [Finite 5, Finite 0, Finite 0],
                           dtype = Float32, device = ''cpu''\<rparr>],
                 model_calls =
                   [\<lparr>vals = [Finite 1, Finite 2, Finite 3], dtype = Float32, device = ''cpu''\<rparr>,
                    \<lparr>vals = [Finite 3, Finite 4, Finite 5], dtype = Float32, device = ''cpu''\<rparr>,
                    \<lparr>vals = [Finite 5, Finite 0, Finite 0],
                      dtype = Float32, device = ''cpu''\<rparr>]\<rparr>)
           \<and> (merged, match_scores)
               = stt_merge_loop (8 / 10) 10 (tl [''hi'', ''hi'', ''hi''])
                   (hd [''hi'', ''hi'', ''hi'']) [1]
           \<and> merge_overlapping_strings [] (hd [''hi'', ''hi'', ''hi'']) (8 / 10) (Some 10)
               = (hd [''hi'', ''hi'', ''hi''], match, 1)
           \<and> match_scores = 1 # rest \<and> length match_scores = length [''hi'', ''hi'', ''hi'']
           \<and> hd match_scores = 1
           \<and> (if tl [''hi'', ''hi'', ''hi''] = []
               then merged = hd [''hi'', ''hi'', ''hi''] \<and> match_scores = [1]
               else (merged, match_scores)
                      = stt_merge_loop (8 / 10) 10 (tl (tl [''hi'', ''hi'', ''hi'']))
                          (fst (merge_overlapping_strings (hd [''hi'', ''hi'', ''hi''])
                                  (hd (tl [''hi'', ''hi'', ''hi''])) (8 / 10) (Some 10)))
                          [1, snd (snd (merge_overlapping_strings (hd [''hi'', ''hi'', ''hi''])
                                          (hd (tl [''hi'', ''hi'', ''hi''])) (8 / 10)
                                          (Some 10)))])"
    by (rule first_match_score_is_one[OF _ _ _ example_stt_run]) simp_all
  show "fst (windowed_stt_rendering (\<lambda>b. (''hi'', ())) 0 3 (Finite (1 / 2)) ''cpu'' (8 / 10) 10
            example_world) = Inr (''hi'', [1, 1, 1])"
    unfolding example_stt_rendering by (rule fst_conv)
  show "fst (windowed_stt_rendering (\<lambda>b. (''hi'', ())) 0 5 (Finite 0) ''cpu'' (8 / 10) 10
            example_world) = Inr (''hi'', [1])"
    by code_simp
qed

subsection \<open>Linear fades\<close>

lemma inplace_prefix:
  assumes "length ys = m" "m \<le> length xs"
  shows "inplace_slice_op f xs None (Some (int m)) ys = Inr (map2 f (take m xs) ys @ drop m xs)"
proof -
  have t: "py_slice xs None (Some (int m)) = take m xs" by (rule py_slice_prefix)
  have l: "length (take m xs) = m" using assms(2) by simp
  show ?thesis
    unfolding inplace_slice_op_def Let_def t l using assms(1) by simp
qed

lemma inplace_suffix:
  assumes "length ys = m" "m \<le> length xs" "0 < m"
  shows "inplace_slice_op f xs (Some (- int m)) None ys
           = Inr (take (length xs - m) xs @ map2 f (drop (length xs - m) xs) ys)"
proof -
  have t: "py_slice xs (Some (- int m)) None = drop (length xs - m) xs"
    using assms(3) by (simp add: py_slice_neg_suffix)
  have lo: "py_index (length xs) (- int m) = length xs - m"
    using assms(2,3) by (simp add: py_index_def)
  have l: "length (drop (length xs - m) xs) = m" using assms(2) by simp
  show ?thesis
    unfolding inplace_slice_op_def Let_def t l option.case lo using assms(1,2) by simp
qed

lemma ramp_in_tail:
  "py_slice (linspace 0 1 (Suc (Suc K))) (Some 1) None
     = map (\<lambda>i. Finite (of_nat (Suc i) / of_nat (Suc K))) [0..<Suc K]"
proof -
  have "py_slice (linspace 0 1 (Suc (Suc K))) (Some (int 1)) None
          = drop 1 (linspace 0 1 (Suc (Suc K)))"
    by (rule py_slice_from)
  also have "\<dots> = map (\<lambda>i. Finite (of_nat i / of_nat (Suc K))) [Suc 0..<Suc (Suc K)]"
    unfolding linspace_def by (simp add: drop_map drop_upt del: upt_Suc)
  also have "\<dots> = map (\<lambda>i. Finite (of_nat (Suc i) / of_nat (Suc K))) [0..<Suc K]"
    unfolding map_Suc_upt[symmetric] by (simp add: comp_def del: upt_Suc)
  finally show ?thesis by simp
qed

lemma ramp_out_init:
  "py_slice (linspace 1 0 (Suc (Suc K))) None (Some (- 1))
     = map (\<lambda>i. Finite (of_nat (Suc K - i) / of_nat (Suc K))) [0..<Suc K]"
proof -
  have len: "length (linspace 1 0 (Suc (Suc K))) = Suc (Suc K)" by (simp add: linspace_def)
  have "py_slice (linspace 1 0 (Suc (Suc K))) None (Some (- 1))
          = take (Suc K) (linspace 1 0 (Suc (Suc K)))"
  proof -
    have "py_index (Suc (Suc K)) (- 1) = Suc K" by (simp add: py_index_def)
    then show ?thesis by (simp add: py_slice_unfold len)
  qed
  also have "\<dots> = map (\<lambda>i. Finite (1 + (0 - 1) * of_nat i / of_nat (Suc K))) [0..<Suc K]"
    unfolding linspace_def by (simp add: take_map del: upt_Suc)
  also have "\<dots> = map (\<lambda>i. Finite (of_nat (Suc K - i) / of_nat (Suc K))) [0..<Suc K]"
  proof (rule map_cong[OF refl])
    fix i assume "i \<in> set [0..<Suc K]"
    then have i: "i \<le> K" by (simp del: upt_Suc)
    have "(of_nat (Suc K - i) :: rat) = of_nat (Suc K) - of_nat i"
      using i by (simp add: of_nat_diff)
    then show "Finite (1 + (0 - 1) * of_nat i / of_nat (Suc K))
                 = Finite ((of_nat (Suc K - i) :: rat) / of_nat (Suc K))"
      by (simp add: diff_divide_distrib)
  qed
  finally show ?thesis .
qed

lemma linear_fade_in:
  assumes k: "0 < k" and len: "nat k < length (vals t)"
  shows "\<exists>t'. linear_fade t k 0 = Inr t'
           \<and> length (vals t') = length (vals t) \<and> dtype t' = dtype t \<and> device t' = device t
           \<and> (\<forall>i<length (vals t).
                 vals t' ! i = (if i \<le> nat k
                                then sample_mul (vals t ! i) (Finite (of_nat (Suc i) / of_nat (Suc (nat k))))
                                else vals t ! i))"
proof -
  define K where "K = nat k"
  define xs where "xs = vals t"
  define ys where "ys = map (\<lambda>i. Finite ((of_nat (Suc i) :: rat) / of_nat (Suc K))) [0..<Suc K]"
  define v where "v = map2 sample_mul (take (Suc K) xs) ys @ drop (Suc K) xs"
  have k2: "nat (k + 2) = Suc (Suc K)" using k by (simp add: K_def)
  have k1: "k + 1 = int (Suc K)" using k by (simp add: K_def)
  have ly: "length ys = Suc K" by (simp add: ys_def)
  have le: "Suc K \<le> length xs" using len by (simp add: K_def xs_def)
  have op: "inplace_slice_op sample_mul xs None (Some (k + 1))
              (py_slice (linspace 0 1 (nat (k + 2))) (Some 1) None) = Inr v"
    unfolding k2 k1 ramp_in_tail ys_def[symmetric] v_def by (rule inplace_prefix[OF ly le])
  have fade: "linear_fade t k 0 = Inr (t\<lparr>vals := v\<rparr>)"
    unfolding linear_fade_def Let_def xs_def[symmetric] using k by (simp add: op)
  have lv: "length v = length xs" using le by (simp add: v_def ly)
  have nth: "v ! i = (if i \<le> K then sample_mul (xs ! i) (Finite (of_nat (Suc i) / of_nat (Suc K)))
                      else xs ! i)"
    if i: "i < length xs" for i
  proof (cases "i \<le> K")
    case True
    then have "i < length (map2 sample_mul (take (Suc K) xs) ys)" using le by (simp add: ly)
    then have "v ! i = map2 sample_mul (take (Suc K) xs) ys ! i" by (simp add: v_def nth_append)
    also have "\<dots> = sample_mul (xs ! i) (ys ! i)" using True le by (simp add: ly)
    also have "ys ! i = Finite (of_nat (Suc i) / of_nat (Suc K))"
      using True unfolding ys_def by (simp del: upt_Suc of_nat_Suc)
    finally show ?thesis using True by simp
  next
    case False
    then have "v ! i = drop (Suc K) xs ! (i - Suc K)"
      using le by (simp add: v_def nth_append ly)
    then show ?thesis using False le i by simp
  qed
  show ?thesis
    apply (rule exI[of _ "t\<lparr>vals := v\<rparr>"])
    using fade lv nth by (simp add: xs_def K_def)
qed

lemma linear_fade_out:
  assumes k: "0 < k" and len: "nat k < length (vals t)"
  shows "\<exists>t'. linear_fade t 0 k = Inr t'
           \<and> length (vals t') = length (vals t) \<and> dtype t' = dtype t \<and> device t' = device t
           \<and> (\<forall>i<length (vals t).
                 vals t' ! i = (if length (vals t) - Suc (nat k) \<le> i
                                then sample_mul (vals t ! i)
                                       (Finite (of_nat (length (vals t) - i) / of_nat (Suc (nat k))))
                                else vals t ! i))"
proof -
  define K where "K = nat k"
  define xs where "xs = vals t"
  define L where "L = length xs"
  define ys where "ys = map (\<lambda>i. Finite ((of_nat (Suc K - i) :: rat) / of_nat (Suc K))) [0..<Suc K]"
  define v where "v = take (L - Suc K) xs @ map2 sample_mul (drop (L - Suc K) xs) ys"
  have k2: "nat (k + 2) = Suc (Suc K)" using k by (simp add: K_def)
  have k1: "- k - 1 = - int (Suc K)" using k by (simp add: K_def)
  have ly: "length ys = Suc K" by (simp add: ys_def)
  have le: "Suc K \<le> length xs" using len by (simp add: K_def xs_def)
  have op: "inplace_slice_op sample_mul xs (Some (- k - 1)) None
              (py_slice (linspace 1 0 (nat (k + 2))) None (Some (- 1))) = Inr v"
    unfolding k2 k1 ramp_out_init ys_def[symmetric] v_def L_def
    by (rule inplace_suffix[OF ly le]) simp
  have fade: "linear_fade t 0 k = Inr (t\<lparr>vals := v\<rparr>)"
    unfolding linear_fade_def Let_def xs_def[symmetric] using k by (simp add: op)
  have lv: "length v = length xs" using le by (simp add: v_def ly L_def)
  have nth: "v ! i = (if L - Suc K \<le> i
                      then sample_mul (xs ! i) (Finite (of_nat (L - i) / of_nat (Suc K)))
                      else xs ! i)"
    if i: "i < length xs" for i
  proof (cases "L - Suc K \<le> i")
    case True
    define d where "d = i - (L - Suc K)"
    have d: "d < Suc K" "L - Suc K + d = i" "Suc K - d = L - i"
      using True i le by (simp_all add: d_def L_def)
    have "v ! i = map2 sample_mul (drop (L - Suc K) xs) ys ! d"
      using True le by (simp add: v_def nth_append d_def L_def)
    also have "\<dots> = sample_mul (drop (L - Suc K) xs ! d) (ys ! d)"
      using d(1) le by (simp add: ly L_def)
    also have "drop (L - Suc K) xs ! d = xs ! i"
      using d(2) le by (simp add: L_def)
    also have "ys ! d = Finite (of_nat (L - i) / of_nat (Suc K))"
      using d(1) unfolding ys_def d(3)[symmetric] by (simp del: upt_Suc of_nat_Suc)
    finally show ?thesis using True by simp
  next
    case False
    then have "v ! i = take (L - Suc K) xs ! i"
      using le by (simp add: v_def nth_append L_def)
    then show ?thesis using False by simp
  qed
  show ?thesis
    apply (rule exI[of _ "t\<lparr>vals := v\<rparr>"])
    using fade lv nth by (simp add: xs_def K_def L_def)
qed

lemma sample_finite_simps:
  "sample_mul (Finite a) (Finite b) = Finite (a * b)"
  "sample_add (Finite a) (Finite b) = Finite (a + b)"
  by (simp_all add: sample_mul_def sample_add_def)

text \<open>
  C2. Let \<open>k \<ge> 1\<close>, and take two all-ones chunks, each longer than \<open>k\<close>, the second
  overlapping the end of the first by \<open>k\<close> samples. \<open>linear_fade\<close> with a fade-out of
  \<open>k\<close> on the first and a fade-in of \<open>k\<close> on the second both return; the fade-in scales
  sample \<open>i\<close>, for \<open>i\<close> from 0 to \<open>k\<close>, by \<open>(i + 1) / (k + 1)\<close>; and at each of the
  \<open>k\<close> overlap positions the two faded chunks sum to exactly 1.
\<close>

theorem crossfade_sums_to_one:
  assumes k: "1 \<le> k"
      and c1: "vals c1 = replicate L1 (Finite 1)" and c2: "vals c2 = replicate L2 (Finite 1)"
      and L: "nat k < L1" "nat k < L2"
      and j: "j < nat k"
  shows "\<exists>f1 f2. linear_fade c1 0 k = Inr f1 \<and> linear_fade c2 k 0 = Inr f2
           \<and> (\<forall>i\<le>nat k. vals f2 ! i = Finite (of_nat (i + 1) / of_nat (nat k + 1)))
           \<and> sample_add (vals f1 ! (L1 - nat k + j)) (vals f2 ! j) = Finite 1"
proof -
  define K where "K = nat k"
  have k0: "0 < k" using k by simp
  have l1: "nat k < length (vals c1)" and l2: "nat k < length (vals c2)"
    using L by (simp_all add: c1 c2)
  obtain f1 where f1: "linear_fade c1 0 k = Inr f1"
    and n1: "\<forall>i<length (vals c1).
                 vals f1 ! i = (if length (vals c1) - Suc (nat k) \<le> i
                                then sample_mul (vals c1 ! i)
                                       (Finite (of_nat (length (vals c1) - i) / of_nat (Suc (nat k))))
                                else vals c1 ! i)"
    using linear_fade_out[OF k0 l1] by blast
  obtain f2 where f2: "linear_fade c2 k 0 = Inr f2"
    and n2: "\<forall>i<length (vals c2).
                 vals f2 ! i = (if i \<le> nat k
                                then sample_mul (vals c2 ! i)
                                       (Finite (of_nat (Suc i) / of_nat (Suc (nat k))))
                                else vals c2 ! i)"
    using linear_fade_in[OF k0 l2] by blast
  have in_ramp: "vals f2 ! i = Finite (of_nat (i + 1) / of_nat (nat k + 1))" if "i \<le> nat k" for i
  proof -
    have "i < length (vals c2)" using that l2 by simp
    moreover have "vals c2 ! i = Finite 1" using that L(2) by (simp add: c2)
    ultimately show ?thesis using n2 that by (simp add: sample_finite_simps)
  qed
  have a: "vals f2 ! j = Finite (of_nat (j + 1) / of_nat (K + 1))"
    using in_ramp[of j] j by (simp add: K_def)
  have i1: "L1 - K + j < length (vals c1)" using L(1) j by (simp add: c1 K_def)
  have ge: "length (vals c1) - Suc K \<le> L1 - K + j" by (simp add: c1)
  have one: "vals c1 ! (L1 - K + j) = Finite 1" using i1 by (simp add: c1)
  have d: "length (vals c1) - (L1 - K + j) = K - j" using L(1) j by (simp add: c1 K_def)
  have b: "vals f1 ! (L1 - K + j) = Finite (of_nat (K - j) / of_nat (K + 1))"
    using n1 i1 ge one d by (simp add: K_def sample_finite_simps)
  have "(of_nat (K - j) :: rat) + of_nat (j + 1) = of_nat (K + 1)"
    using j unfolding of_nat_add[symmetric] by (simp add: K_def)
  then have "(of_nat (K - j) :: rat) / of_nat (K + 1) + of_nat (j + 1) / of_nat (K + 1) = 1"
    unfolding add_divide_distrib[symmetric] by simp
  then have "sample_add (Finite (of_nat (K - j) / of_nat (K + 1)))
               (Finite (of_nat (j + 1) / of_nat (K + 1))) = Finite 1"
    unfolding sample_finite_simps by simp
  then have sum: "sample_add (vals f1 ! (L1 - nat k + j)) (vals f2 ! j) = Finite 1"
    using a b by (simp add: K_def)
  have ramp: "\<forall>i\<le>nat k. vals f2 ! i = Finite (of_nat (i + 1) / of_nat (nat k + 1))"
    using in_ramp by blast
  show ?thesis
    by (intro exI conjI) (rule f1, rule f2, rule ramp, rule sum)
qed

lemma example_fades:
  "linear_fade ones5 0 4
     = Inr (ones5\<lparr>vals := [Finite 1, Finite (4 / 5), Finite (3 / 5), Finite (2 / 5),
                           Finite (1 / 5)]\<rparr>)"
  "linear_fade ones5 4 0
     = Inr (ones5\<lparr>vals := [Finite (1 / 5), Finite (2 / 5), Finite (3 / 5), Finite (4 / 5),
                           Finite 1]\<rparr>)"
  by code_simp+

theorem crossfade_sums_to_one_witness:
  "(\<exists>f1 f2. linear_fade ones5 0 4 = Inr f1 \<and> linear_fade ones5 4 0 = Inr f2
           \<and> (\<forall>i\<le>nat 4. vals f2 ! i = Finite (of_nat (i + 1) / of_nat (nat 4 + 1)))
           \<and> sample_add (vals f1 ! (5 - nat 4 + 2)) (vals f2 ! 2) = Finite 1)
   \<and> linear_fade ones5 0 4
     = Inr (ones5\<lparr>vals := [Finite 1, Finite (4 / 5), Finite (3 / 5), Finite (2 / 5),
                           Finite (1 / 5)]\<rparr>)
   \<and> linear_fade ones5 4 0
     = Inr (ones5\<lparr>vals := [Finite (1 / 5), Finite (2 / 5), Finite (3 / 5), Finite (4 / 5),
                           Finite 1]\<rparr>)"
proof (intro conjI)
  show "\<exists>f1 f2. linear_fade ones5 0 4 = Inr f1 \<and> linear_fade ones5 4 0 = Inr f2
           \<and> (\<forall>i\<le>nat 4. vals f2 ! i = Finite (of_nat (i + 1) / of_nat (nat 4 + 1)))
           \<and> sample_add (vals f1 ! (5 - nat 4 + 2)) (vals f2 ! 2) = Finite 1"
    by (rule crossfade_sums_to_one[where ?L1.0 = 5 and ?L2.0 = 5]) (simp_all add: ones5_def)
qed (rule example_fades)+

subsection \<open>Signal stitching\<close>

lemma overlay_step_ok:
  assumes beg: "0 \<le> beg" "beg < int (length xs)" and ws: "1 \<le> winsize"
      and ys: "nat winsize \<le> length ys"
  shows "\<exists>v. inplace_slice_op sample_add xs (Some beg) (Some (min (beg + winsize) (int (length xs))))
               (py_slice ys None (Some (min (beg + winsize) (int (length xs)) - beg))) = Inr v"
proof -
  define e where "e = min (beg + winsize) (int (length xs))"
  have e: "beg < e" "e \<le> int (length xs)" "e - beg \<le> winsize"
    using beg ws by (simp_all add: e_def)
  have e0: "0 \<le> e" using e(1) beg(1) by simp
  have t: "length (py_slice xs (Some beg) (Some e)) = nat (e - beg)"
    unfolding py_slice_nonneg[OF beg(1) e0] using e beg by (simp add: min_def) linarith
  have d0: "0 \<le> e - beg" using e(1) by simp
  have "py_slice ys None (Some (int (nat (e - beg)))) = take (nat (e - beg)) ys"
    by (rule py_slice_prefix)
  then have o: "length (py_slice ys None (Some (e - beg))) = nat (e - beg)"
    using d0 e(3) ys by simp
  show ?thesis
    unfolding e_def[symmetric] inplace_slice_op_def Let_def t o by simp
qed

lemma overlay_loop_frame:
  assumes "r < length (heap w)" "overlay_loop r winsize len_result pairs w = (res, w')"
  shows "length (heap w') = length (heap w) \<and> model_calls w' = model_calls w
         \<and> (\<forall>i. i \<noteq> r \<longrightarrow> heap w' ! i = heap w ! i)
         \<and> length (vals (heap w' ! r)) = length (vals (heap w ! r))
         \<and> dtype (heap w' ! r) = dtype (heap w ! r)
         \<and> device (heap w' ! r) = device (heap w ! r)"
  using assms
proof (induction pairs arbitrary: w)
  case Nil
  then show ?case by simp
next
  case (Cons p pairs)
  obtain beg ch where p: "p = (beg, ch)" by (cases p)
  define e where "e = min (beg + winsize) len_result"
  show ?case
  proof (cases "inplace_slice_op sample_add (vals (heap w ! r)) (Some beg) (Some e)
                  (py_slice (vals ch) None (Some (e - beg)))")
    case (Inl err)
    with Cons.prems(2) have "w' = w" by (simp add: p Let_def e_def)
    then show ?thesis by simp
  next
    case (Inr v)
    define w1 where "w1 = w\<lparr>heap := (heap w)[r := (heap w ! r)\<lparr>vals := v\<rparr>]\<rparr>"
    have lv: "length v = length (vals (heap w ! r))" by (rule length_inplace_slice_op[OF Inr])
    have rec: "overlay_loop r winsize len_result pairs w1 = (res, w')"
      using Cons.prems(2) Inr by (simp add: p Let_def e_def w1_def)
    have r1: "r < length (heap w1)" using Cons.prems(1) by (simp add: w1_def)
    from Cons.IH[OF r1 rec] show ?thesis
      using Cons.prems(1) lv by (simp add: w1_def)
  qed
qed

lemma overlay_loop_ok:
  assumes "r < length (heap w)" "len_result = int (length (vals (heap w ! r)))" "1 \<le> winsize"
      and "\<forall>p\<in>set pairs. 0 \<le> fst p \<and> fst p < len_result \<and> nat winsize \<le> length (vals (snd p))"
  shows "\<exists>w'. overlay_loop r winsize len_result pairs w = (Inr (), w')"
  using assms
proof (induction pairs arbitrary: w)
  case Nil
  then show ?case by simp
next
  case (Cons p pairs)
  obtain beg ch where p: "p = (beg, ch)" by (cases p)
  define e where "e = min (beg + winsize) len_result"
  have b: "0 \<le> beg" "beg < int (length (vals (heap w ! r)))" "nat winsize \<le> length (vals ch)"
    using Cons.prems(2,4) by (simp_all add: p)
  obtain v where v: "inplace_slice_op sample_add (vals (heap w ! r)) (Some beg) (Some e)
                  (py_slice (vals ch) None (Some (e - beg))) = Inr v"
    using overlay_step_ok[OF b(1,2) Cons.prems(3) b(3)] unfolding e_def Cons.prems(2) by blast
  define w1 where "w1 = w\<lparr>heap := (heap w)[r := (heap w ! r)\<lparr>vals := v\<rparr>]\<rparr>"
  have lv: "length v = length (vals (heap w ! r))" by (rule length_inplace_slice_op[OF v])
  have step: "overlay_loop r winsize len_result (p # pairs) w
                = overlay_loop r winsize len_result pairs w1"
    using v by (simp add: p Let_def e_def w1_def)
  have r1: "r < length (heap w1)" using Cons.prems(1) by (simp add: w1_def)
  have l1: "len_result = int (length (vals (heap w1 ! r)))"
    using Cons.prems(1,2) lv by (simp add: w1_def)
  have a1: "\<forall>p\<in>set pairs. 0 \<le> fst p \<and> fst p < len_result \<and> nat winsize \<le> length (vals (snd p))"
    using Cons.prems(4) by simp
  show ?case unfolding step by (rule Cons.IH[OF r1 l1 Cons.prems(3) a1])
qed

lemma linear_fade_in_length:
  assumes "k \<le> 0 \<or> nat k < length (vals t)"
  shows "\<exists>t'. linear_fade t k 0 = Inr t' \<and> length (vals t') = length (vals t)"
proof (cases "0 < k")
  case True
  with assms have "nat k < length (vals t)" by simp
  from linear_fade_in[OF True this] show ?thesis by blast
next
  case False
  then have "linear_fade t k 0 = Inr t" by (simp add: linear_fade_def)
  then show ?thesis by simp
qed

lemma linear_fade_out_length:
  assumes "k \<le> 0 \<or> nat k < length (vals t)"
  shows "\<exists>t'. linear_fade t 0 k = Inr t' \<and> length (vals t') = length (vals t)"
proof (cases "0 < k")
  case True
  with assms have "nat k < length (vals t)" by simp
  from linear_fade_out[OF True this] show ?thesis by blast
next
  case False
  then have "linear_fade t 0 k = Inr t" by (simp add: linear_fade_def)
  then show ?thesis by simp
qed

lemma map_err_lengths:
  assumes "\<And>x. x \<in> set xs \<Longrightarrow> \<exists>y. f x = Inr y \<and> length (vals y) = W"
  shows "\<exists>ys. map_err f xs = Inr ys \<and> length ys = length xs
              \<and> (\<forall>y\<in>set ys. length (vals y) = W)"
  using assms
proof (induction xs)
  case Nil
  then show ?case by simp
next
  case (Cons x xs)
  obtain y where y: "f x = Inr y" "length (vals y) = W" using Cons.prems[of x] by auto
  obtain ys where ys: "map_err f xs = Inr ys" "length ys = length xs"
      "\<forall>y\<in>set ys. length (vals y) = W"
    using Cons.IH Cons.prems by auto
  show ?case using y ys by simp
qed

lemma fade_in_all:
  assumes cs: "\<And>c. c \<in> set cs \<Longrightarrow> length (vals c) = W" and k: "k \<le> 0 \<or> nat k < W"
  shows "\<exists>ys. map_err (\<lambda>ch. linear_fade ch k 0) cs = Inr ys \<and> length ys = length cs
              \<and> (\<forall>y\<in>set ys. length (vals y) = W)"
proof (rule map_err_lengths)
  fix x assume "x \<in> set cs"
  then have x: "length (vals x) = W" by (rule cs)
  have "k \<le> 0 \<or> nat k < length (vals x)" unfolding x by (rule k)
  then have "\<exists>y. linear_fade x k 0 = Inr y \<and> length (vals y) = length (vals x)"
    by (rule linear_fade_in_length)
  then show "\<exists>y. linear_fade x k 0 = Inr y \<and> length (vals y) = W" unfolding x .
qed

lemma fade_out_all:
  assumes cs: "\<And>c. c \<in> set cs \<Longrightarrow> length (vals c) = W" and k: "k \<le> 0 \<or> nat k < W"
  shows "\<exists>ys. map_err (\<lambda>ch. linear_fade ch 0 k) cs = Inr ys \<and> length ys = length cs
              \<and> (\<forall>y\<in>set ys. length (vals y) = W)"
proof (rule map_err_lengths)
  fix x assume "x \<in> set cs"
  then have x: "length (vals x) = W" by (rule cs)
  have "k \<le> 0 \<or> nat k < length (vals x)" unfolding x by (rule k)
  then have "\<exists>y. linear_fade x 0 k = Inr y \<and> length (vals y) = length (vals x)"
    by (rule linear_fade_out_length)
  then show "\<exists>y. linear_fade x 0 k = Inr y \<and> length (vals y) = W" unfolding x .
qed

text \<open>The two fading loops keep the number of chunks and the length of each.\<close>

lemma fade_chunks:
  assumes cs: "\<And>c. c \<in> set chunks \<Longrightarrow> length (vals c) = W" and k: "k \<le> 0 \<or> nat k < W"
  shows "\<exists>faded_in faded_out.
           map_err (\<lambda>ch. linear_fade ch k 0) (py_slice chunks (Some 1) None) = Inr faded_in
           \<and> map_err (\<lambda>ch. linear_fade ch 0 k)
                 (py_slice (py_slice chunks None (Some 1) @ faded_in) None (Some (- 1)))
               = Inr faded_out
           \<and> (\<forall>c\<in>set (faded_out
                     @ py_slice (py_slice chunks None (Some 1) @ faded_in) (Some (- 1)) None).
                 length (vals c) = W)"
proof -
  have s1: "length (vals c) = W" if "c \<in> set (py_slice chunks (Some 1) None)" for c
    using that set_py_slice[of chunks "Some 1" None] by (auto intro: cs)
  obtain faded_in where
    fi: "map_err (\<lambda>ch. linear_fade ch k 0) (py_slice chunks (Some 1) None) = Inr faded_in"
    and fiv: "\<forall>y\<in>set faded_in. length (vals y) = W"
    using fade_in_all[of "py_slice chunks (Some 1) None" W k, OF s1 k] by blast
  define chunks1 where "chunks1 = py_slice chunks None (Some 1) @ faded_in"
  have c1v: "length (vals c) = W" if "c \<in> set chunks1" for c
    using that fiv set_py_slice[of chunks None "Some 1"] by (auto simp: chunks1_def intro: cs)
  have s2: "length (vals c) = W" if "c \<in> set (py_slice chunks1 None (Some (- 1)))" for c
    using that set_py_slice[of chunks1 None "Some (- 1)"] by (auto intro: c1v)
  obtain faded_out where
    fo: "map_err (\<lambda>ch. linear_fade ch 0 k) (py_slice chunks1 None (Some (- 1))) = Inr faded_out"
    and fov: "\<forall>y\<in>set faded_out. length (vals y) = W"
    using fade_out_all[of "py_slice chunks1 None (Some (- 1))" W k, OF s2 k] by blast
  have c2v: "\<forall>c\<in>set (faded_out @ py_slice chunks1 (Some (- 1)) None). length (vals c) = W"
    using fov set_py_slice[of chunks1 "Some (- 1)" None] by (auto intro: c1v)
  show ?thesis
    using fi fo c2v unfolding chunks1_def by blast
qed

lemma windowed_audio_rendering_valid:
  assumes a: "a < length (heap w)"
      and n: "1 \<le> length (vals (heap w ! a))"
      and mw: "1 \<le> max_winsize"
      and sz: "min max_winsize (int (length (vals (heap w ! a)))) < 2 ^ 53"
      and r: "is_double overlap_ratio" "0 \<le> overlap_ratio" "overlap_ratio < 1"
      and shape: "\<And>b. length (vals (model b)) = length (vals b)"
  shows "\<exists>r begs winsize overlap w'.
           windowed_audio_rendering model a max_winsize (Finite overlap_ratio) dev w
             = (Inr (r, begs, winsize, overlap), w')
           \<and> length (heap w) \<le> r \<and> r < length (heap w')
           \<and> take (length (heap w)) (heap w') = heap w
           \<and> length (vals (heap w' ! r)) = length (vals (heap w ! a))
           \<and> dtype (heap w' ! r) = dtype (heap w ! a)
           \<and> device (heap w' ! r) = device (heap w ! a)"
proof -
  define tnsr where "tnsr = heap w ! a"
  define n where "n = int (length (vals tnsr))"
  define winsize where "winsize = min max_winsize n"
  define Z where "Z = zero_batch tnsr winsize dev"
  obtain overlap where ov0: "0 \<le> overlap" and ovw: "overlap < winsize"
    and ws1: "1 \<le> winsize"
    and run0: "windowed_run model a max_winsize (Finite overlap_ratio) dev
                 (\<lambda>ch. to_device ch ''cpu'') w =
         (Inr (map (\<lambda>B. to_device (model B) ''cpu'')
                 (window_batches Z (vals tnsr) winsize (window_starts n (winsize - overlap))),
               window_starts n (winsize - overlap), winsize, overlap),
          w\<lparr>heap := heap w @
                [last (window_batches Z (vals tnsr) winsize
                         (window_starts n (winsize - overlap)))],
            model_calls := model_calls w @
                window_batches Z (vals tnsr) winsize (window_starts n (winsize - overlap))\<rparr>)"
    using windowed_run_valid[OF a n mw sz r n_def[unfolded tnsr_def] winsize_def,
        where model = model and dev = dev and chunk_hook = "\<lambda>ch. to_device ch ''cpu''"]
    unfolding tnsr_def[symmetric] Z_def[symmetric] by blast
  define stride where "stride = winsize - overlap"
  define begs where "begs = window_starts n stride"
  define bufs where "bufs = window_batches Z (vals tnsr) winsize begs"
  define chunks where "chunks = map (\<lambda>B. to_device (model B) ''cpu'') bufs"
  define w1 where "w1 = w\<lparr>heap := heap w @ [last bufs], model_calls := model_calls w @ bufs\<rparr>"
  have run: "windowed_run model a max_winsize (Finite overlap_ratio) dev
                 (\<lambda>ch. to_device ch ''cpu'') w
                = (Inr (chunks, begs, winsize, overlap), w1)"
    using run0 unfolding stride_def[symmetric] begs_def[symmetric] bufs_def[symmetric]
      chunks_def[symmetric] w1_def[symmetric] .
  have n1: "1 \<le> n" using n by (simp add: n_def tnsr_def)
  have st: "1 \<le> stride" using ovw by (simp add: stride_def)
  have st0: "0 < stride" using st by simp
  have wsn: "winsize \<le> int (length (vals tnsr))" by (simp add: winsize_def n_def)
  have "py_slice (vals tnsr) None (Some (int (nat winsize))) = take (nat winsize) (vals tnsr)"
    by (rule py_slice_prefix)
  then have lp: "length (py_slice (vals tnsr) None (Some winsize)) = nat winsize"
    using ws1 wsn by simp
  have lenZ: "length (vals Z) = nat winsize"
    by (simp add: Z_def zero_batch_def zeros_like_def lp)
  have lZ: "length (vals Z) = length (py_slice (vals tnsr) None (Some winsize))"
    unfolding lenZ lp ..
  have begs_range: "0 \<le> beg \<and> beg < n" if "beg \<in> set begs" for beg
    using that window_starts_props(4)[OF st0 n1] unfolding begs_def by simp
  have nn: "\<forall>beg\<in>set begs. 0 \<le> beg" using begs_range by blast
  have chunk_len: "length (vals c) = nat winsize" if "c \<in> set chunks" for c
  proof -
    from that obtain B where B: "B \<in> set bufs" and c: "c = to_device (model B) ''cpu''"
      unfolding chunks_def by auto
    have "length (vals B) = length (vals Z)"
      using window_batches_frame[OF nn lZ] B unfolding bufs_def by blast
    then show ?thesis by (simp add: c to_device_def shape lenZ)
  qed
  have fade_ok: "overlap \<le> 0 \<or> nat overlap < nat winsize"
    using ov0 st unfolding stride_def by linarith
  obtain faded_in faded_out where
    fi: "map_err (\<lambda>ch. linear_fade ch overlap 0) (py_slice chunks (Some 1) None) = Inr faded_in"
    and fo: "map_err (\<lambda>ch. linear_fade ch 0 overlap)
                 (py_slice (py_slice chunks None (Some 1) @ faded_in) None (Some (- 1)))
               = Inr faded_out"
    and c2v: "\<forall>c\<in>set (faded_out
                     @ py_slice (py_slice chunks None (Some 1) @ faded_in) (Some (- 1)) None).
                 length (vals c) = nat winsize"
    using fade_chunks[of chunks "nat winsize" overlap, OF chunk_len fade_ok] by blast
  define chunks2 where
    "chunks2 = faded_out @ py_slice (py_slice chunks None (Some 1) @ faded_in) (Some (- 1)) None"
  define r where "r = length (heap w1)"
  define w2 where "w2 = w1\<lparr>heap := heap w1 @ [zeros_like (heap w1 ! a) (device (heap w1 ! a))]\<rparr>"
  define len_result where "len_result = int (length (vals (heap w2 ! r)))"
  have h1a: "heap w1 ! a = tnsr" using a by (simp add: w1_def tnsr_def nth_append)
  have h2r: "heap w2 ! r = zeros_like tnsr (device tnsr)" by (simp add: w2_def r_def h1a)
  have lr: "len_result = n" by (simp add: len_result_def h2r zeros_like_def n_def)
  have r2: "r < length (heap w2)" by (simp add: w2_def r_def)
  have pairs: "\<forall>p\<in>set (zip begs chunks2).
      0 \<le> fst p \<and> fst p < len_result \<and> nat winsize \<le> length (vals (snd p))"
  proof
    fix p assume p: "p \<in> set (zip begs chunks2)"
    obtain beg c where pc: "p = (beg, c)" by (cases p)
    have "beg \<in> set begs" using p unfolding pc by (rule set_zip_leftD)
    then have b: "0 \<le> beg \<and> beg < n" by (rule begs_range)
    have "c \<in> set chunks2" using p unfolding pc by (rule set_zip_rightD)
    then have "length (vals c) = nat winsize" using c2v unfolding chunks2_def by blast
    then show "0 \<le> fst p \<and> fst p < len_result \<and> nat winsize \<le> length (vals (snd p))"
      using b by (simp add: pc lr)
  qed
  obtain w3 where ov: "overlay_loop r winsize len_result (zip begs chunks2) w2 = (Inr (), w3)"
    using overlay_loop_ok[OF r2 len_result_def ws1 pairs] by blast
  have res: "windowed_audio_rendering model a max_winsize (Finite overlap_ratio) dev w
             = (Inr (length (heap w1), begs, winsize, overlap), w3)"
    unfolding windowed_audio_rendering_def run
    by (simp only: prod.case sum.case fi fo Let_def
          ov[unfolded len_result_def w2_def r_def chunks2_def])
  from overlay_loop_frame[OF r2 ov]
  have f1: "length (heap w3) = length (heap w2)"
    and f2: "\<forall>i. i \<noteq> r \<longrightarrow> heap w3 ! i = heap w2 ! i"
    and f3: "length (vals (heap w3 ! r)) = length (vals (heap w2 ! r))"
    and f4: "dtype (heap w3 ! r) = dtype (heap w2 ! r)"
    and f5: "device (heap w3 ! r) = device (heap w2 ! r)" by simp_all
  have rge: "length (heap w) \<le> length (heap w1)" by (simp add: w1_def)
  have rlt: "length (heap w1) < length (heap w3)" using f1 r2 by (simp add: r_def)
  have old: "take (length (heap w)) (heap w3) = heap w"
  proof (rule nth_equalityI)
    show "length (take (length (heap w)) (heap w3)) = length (heap w)"
      using f1 by (simp add: w2_def w1_def)
    fix i assume "i < length (take (length (heap w)) (heap w3))"
    then have i: "i < length (heap w)" by simp
    then have "i \<noteq> r" using rge by (simp add: r_def)
    then have "heap w3 ! i = heap w2 ! i" using f2 by simp
    also have "\<dots> = heap w ! i" using i by (simp add: w2_def w1_def nth_append)
    finally show "take (length (heap w)) (heap w3) ! i = heap w ! i" using i by simp
  qed
  have p1: "length (vals (heap w3 ! length (heap w1))) = length (vals (heap w ! a))"
    and p2: "dtype (heap w3 ! length (heap w1)) = dtype (heap w ! a)"
    and p3: "device (heap w3 ! length (heap w1)) = device (heap w ! a)"
    using f3 f4 f5 unfolding r_def[symmetric] h2r by (simp_all add: zeros_like_def tnsr_def)
  show ?thesis
    by (intro exI conjI) (rule res, rule rge, rule rlt, rule old, rule p1, rule p2, rule p3)
qed

lemma windowed_run_heap:
  assumes a: "a < length (heap w)"
      and run: "windowed_run model a max_winsize overlap_ratio dev chunk_hook w = (Inr res, w1)"
  shows "\<exists>X. heap w1 = heap w @ [X]"
proof (cases "int_of_float_times_int overlap_ratio
                (min max_winsize (int (length (vals (heap w ! a)))))")
  case (Inl e)
  from run show ?thesis unfolding windowed_run_overlap_error[OF Inl] by simp
next
  case (Inr overlap)
  from run show ?thesis
    unfolding windowed_run_char[OF a Inr] Let_def
    by (cases "py_range 0 (int (length (vals (heap w ! a))))
                 (min max_winsize (int (length (vals (heap w ! a)))) - overlap)") auto
qed

text \<open>
  Whatever the parameters and the callable: when \<open>windowed_audio_rendering\<close> returns, the
  result is a new tensor with the length, numeric type and device of the input, and the
  tensors that existed before are unchanged.
\<close>

lemma windowed_audio_rendering_returns:
  assumes a: "a < length (heap w)"
      and run: "windowed_audio_rendering model a max_winsize overlap_ratio dev w
                  = (Inr (r, begs, winsize, overlap), w')"
  shows "length (heap w) \<le> r \<and> r < length (heap w')
         \<and> take (length (heap w)) (heap w') = heap w
         \<and> length (vals (heap w' ! r)) = length (vals (heap w ! a))
         \<and> dtype (heap w' ! r) = dtype (heap w ! a)
         \<and> device (heap w' ! r) = device (heap w ! a)"
proof -
  obtain res1 w1 where wr: "windowed_run model a max_winsize overlap_ratio dev
                              (\<lambda>ch. to_device ch ''cpu'') w = (res1, w1)"
    by (cases "windowed_run model a max_winsize overlap_ratio dev (\<lambda>ch. to_device ch ''cpu'') w")
  define w2 where "w2 = w1\<lparr>heap := heap w1 @ [zeros_like (heap w1 ! a) (device (heap w1 ! a))]\<rparr>"
  from run obtain pairs res0 where
    r: "r = length (heap w1)" and res1: "res1 = Inr res0"
    and ov: "overlay_loop (length (heap w1)) winsize
               (int (length (vals (heap w2 ! length (heap w1))))) pairs w2 = (Inr (), w')"
    unfolding windowed_audio_rendering_def wr w2_def
    by (auto simp: Let_def split: sum.splits prod.splits)
  obtain X where h1: "heap w1 = heap w @ [X]"
    using windowed_run_heap[OF a wr[unfolded res1]] by blast
  have r2: "length (heap w1) < length (heap w2)" by (simp add: w2_def)
  from overlay_loop_frame[OF r2 ov]
  have f1: "length (heap w') = length (heap w2)"
    and f2: "\<forall>i. i \<noteq> length (heap w1) \<longrightarrow> heap w' ! i = heap w2 ! i"
    and f3: "length (vals (heap w' ! length (heap w1))) = length (vals (heap w2 ! length (heap w1)))"
    and f4: "dtype (heap w' ! length (heap w1)) = dtype (heap w2 ! length (heap w1))"
    and f5: "device (heap w' ! length (heap w1)) = device (heap w2 ! length (heap w1))"
    by simp_all
  have h1a: "heap w1 ! a = heap w ! a" using a by (simp add: h1 nth_append)
  have h2r: "heap w2 ! length (heap w1) = zeros_like (heap w ! a) (device (heap w ! a))"
    by (simp add: w2_def h1a)
  have rge: "length (heap w) \<le> r" by (simp add: r h1)
  have rlt: "r < length (heap w')" using f1 r2 by (simp add: r)
  have old: "take (length (heap w)) (heap w') = heap w"
  proof (rule nth_equalityI)
    show "length (take (length (heap w)) (heap w')) = length (heap w)"
      using f1 by (simp add: w2_def h1)
    fix i assume "i < length (take (length (heap w)) (heap w'))"
    then have i: "i < length (heap w)" by simp
    then have "i \<noteq> length (heap w1)" by (simp add: h1)
    then have "heap w' ! i = heap w2 ! i" using f2 by simp
    also have "\<dots> = heap w ! i" using i by (simp add: w2_def h1 nth_append)
    finally show "take (length (heap w)) (heap w') ! i = heap w ! i" using i by simp
  qed
  have p: "length (vals (heap w' ! r)) = length (vals (heap w ! a))"
      "dtype (heap w' ! r) = dtype (heap w ! a)"
      "device (heap w' ! r) = device (heap w ! a)"
    using f3 f4 f5 unfolding r h2r by (simp_all add: zeros_like_def)
  show ?thesis using rge rlt old p by simp
qed

lemma example_audio_rendering:
  "fst (windowed_audio_rendering (\<lambda>b. b) 0 3 (Finite (1 / 2)) ''cpu'' example_world)
     = Inr (2, [0, 2, 4], 3, 1)"
  "heap (snd (windowed_audio_rendering (\<lambda>b. b) 0 3 (Finite (1 / 2)) ''cpu'' example_world))
     = [\<lparr>vals = [Finite 1, Finite 2, Finite 3, Finite 4, Finite 5],
         dtype = Float32, device = ''cpu''\<rparr>,
        \<lparr>vals = [Finite 5, Finite 0, Finite 0], dtype = Float32, device = ''cpu''\<rparr>,
        \<lparr>vals = [Finite 1, Finite 2, Finite 3, Finite 4, Finite 5],
         dtype = Float32, device = ''cpu''\<rparr>]"
  by code_simp+

text \<open>
  C7. In every valid run of \<open>windowed_audio_rendering\<close> (\<open>n \<ge> 1\<close>, \<open>max_winsize \<ge> 1\<close>,
  a double \<open>overlap_ratio\<close> in \<open>[0, 1)\<close>, a window size below \<open>2 ^ 53\<close>, a callable
  whose output has the shape of its input), whatever the window size and the overlap
  ratio, the call returns; the stitched output is a tensor allocated by the run, so none
  of those that existed before; its length, numeric type and device are those of the
  input signal; and every tensor that existed before the run, the input signal among
  them, is unchanged.
\<close>

theorem windowed_audio_rendering_frame:
  assumes a: "a < length (heap w)"
      and n: "1 \<le> length (vals (heap w ! a))"
      and mw: "1 \<le> max_winsize"
      and sz: "min max_winsize (int (length (vals (heap w ! a)))) < 2 ^ 53"
      and r: "is_double overlap_ratio" "0 \<le> overlap_ratio" "overlap_ratio < 1"
      and shape: "\<And>b. length (vals (model b)) = length (vals b)"
  shows "\<exists>r begs winsize overlap w'.
           windowed_audio_rendering model a max_winsize (Finite overlap_ratio) dev w
             = (Inr (r, begs, winsize, overlap), w')
           \<and> length (heap w) \<le> r \<and> r < length (heap w')
           \<and> take (length (heap w)) (heap w') = heap w
           \<and> length (vals (heap w' ! r)) = length (vals (heap w ! a))
           \<and> dtype (heap w' ! r) = dtype (heap w ! a)
           \<and> device (heap w' ! r) = device (heap w ! a)"
  using assms by (rule windowed_audio_rendering_valid)

theorem windowed_audio_rendering_frame_witness:
  "(\<exists>r begs winsize overlap w'.
           windowed_audio_rendering (\<lambda>b. b) 0 3 (Finite (1 / 2)) ''cpu'' example_world
             = (Inr (r, begs, winsize, overlap), w')
           \<and> length (heap example_world) \<le> r \<and> r < length (heap w')
           \<and> take (length (heap example_world)) (heap w') = heap example_world
           \<and> length (vals (heap w' ! r)) = length (vals (heap example_world ! 0))
           \<and> dtype (heap w' ! r) = dtype (heap example_world ! 0)
           \<and> device (heap w' ! r) = device (heap example_world ! 0))
   \<and> fst (windowed_audio_rendering (\<lambda>b. b) 0 3 (Finite (1 / 2)) ''cpu'' example_world)
     = Inr (2, [0, 2, 4], 3, 1)"
proof (rule conjI)
  show "\<exists>r begs winsize overlap w'.
           windowed_audio_rendering (\<lambda>b. b) 0 3 (Finite (1 / 2)) ''cpu'' example_world
             = (Inr (r, begs, winsize, overlap), w')
           \<and> length (heap example_world) \<le> r \<and> r < length (heap w')
           \<and> take (length (heap example_world)) (heap w') = heap example_world
           \<and> length (vals (heap w' ! r)) = length (vals (heap example_world ! 0))
           \<and> dtype (heap w' ! r) = dtype (heap example_world ! 0)
           \<and> device (heap w' ! r) = device (heap example_world ! 0)"
    by (rule windowed_audio_rendering_frame)
       (simp_all add: example_world_def example_signal_def is_double_examples)
  show "fst (windowed_audio_rendering (\<lambda>b. b) 0 3 (Finite (1 / 2)) ''cpu'' example_world)
     = Inr (2, [0, 2, 4], 3, 1)"
    by (rule example_audio_rendering(1))
qed

subsection \<open>Aborting the worker\<close>

lemma Worker_windowed_run_loop_abort:
  assumes "a < length (heap w)" "b < length (heap w)" "a \<noteq> b"
      and "\<forall>p\<in>set pairs. 0 \<le> snd p"
      and "length (vals (heap w ! b)) = length (py_slice (vals (heap w ! a)) None (Some winsize))"
      and "j < length pairs" "abort_seen s (abort_reads s + j)"
  shows "fst (Worker_windowed_run_loop model chunk_hook a b winsize num_windows pairs chunks s w)
           = Inr None"
  using assms
proof (induction pairs arbitrary: j chunks s w)
  case Nil
  then show ?case by simp
next
  case (Cons p pairs)
  obtain i beg where p: "p = (i, beg)" by (cases p)
  show ?case
  proof (cases "abort_seen s (abort_reads s)")
    case True
    then show ?thesis by (simp add: p Let_def)
  next
    case False
    with Cons.prems(7) have j0: "j \<noteq> 0" by (cases j) auto
    then obtain j' where j: "j = Suc j'" by (cases j) auto
    define B where "B = window_batch (heap w ! b) (vals (heap w ! a)) winsize beg"
    define s2 where "s2 = s\<lparr>abort_reads := Suc (abort_reads s),
                             progress := progress s @ [(i, num_windows)]\<rparr>"
    define w' where "w' = w\<lparr>heap := (heap w)[b := B], model_calls := model_calls w @ [B]\<rparr>"
    define chunk where "chunk = py_slice (vals (heap w ! a)) (Some beg) (Some (beg + winsize))"
    define zeroed where "zeroed = map (\<lambda>x. sample_mul x (Finite 0)) (vals (heap w ! b))"
    have beg: "0 \<le> beg" using Cons.prems(4) by (simp add: p)
    have fit: "length chunk \<le> length (vals (heap w ! b))"
      unfolding chunk_def Cons.prems(5) by (rule chunk_fits[OF beg])
    have fit': "length chunk \<le> length zeroed" using fit by (simp add: zeroed_def)
    have asg: "inplace_slice_op (\<lambda>_ y. y) zeroed None (Some (int (length chunk))) chunk
      = Inr (chunk @ drop (length chunk) zeroed)"
      by (rule assign_prefix[OF fit'])
    have wb: "B = (heap w ! b)\<lparr>vals := chunk @ drop (length chunk) zeroed\<rparr>"
      by (simp add: B_def window_batch_def Let_def chunk_def zeroed_def)
    have step: "Worker_windowed_run_loop model chunk_hook a b winsize num_windows (p # pairs) chunks s w
        = Worker_windowed_run_loop model chunk_hook a b winsize num_windows pairs
            (chunks @ [chunk_hook (model B)]) s2 w'"
      unfolding p Worker_windowed_run_loop.simps Let_def chunk_def[symmetric]
        zeroed_def[symmetric] asg wb s2_def w'_def
      using False by simp
    have ha: "heap w' ! a = heap w ! a" using Cons.prems(1-3) by (simp add: w'_def)
    have hb: "heap w' ! b = B" using Cons.prems(2) by (simp add: w'_def)
    have lenB: "length (vals B) = length (vals (heap w ! b))"
      unfolding wb using fit by (simp add: zeroed_def)
    have p1: "a < length (heap w')" "b < length (heap w')"
      using Cons.prems(1,2) by (simp_all add: w'_def)
    have p4: "\<forall>p\<in>set pairs. 0 \<le> snd p" using Cons.prems(4) by simp
    have p5: "length (vals (heap w' ! b))
                = length (py_slice (vals (heap w' ! a)) None (Some winsize))"
      unfolding hb ha lenB by (rule Cons.prems(5))
    have p6: "j' < length pairs" using Cons.prems(6) by (simp add: j)
    have p7: "abort_seen s2 (abort_reads s2 + j')"
      using Cons.prems(7) by (simp add: s2_def j)
    show ?thesis
      unfolding step by (rule Cons.IH[OF p1 Cons.prems(3) p4 p5 p6 p7])
  qed
qed

lemma py_enumerate1_props:
  "length (py_enumerate1 xs) = length xs" "snd ` set (py_enumerate1 xs) \<subseteq> set xs"
  unfolding py_enumerate1_def by (auto dest: set_zip_rightD simp del: upt_Suc)

text \<open>
  Whenever the flag is seen set at one of the reads of the window loop, the worker's
  \<open>windowed_stt_rendering\<close> raises \<open>TypeError\<close>.
\<close>

lemma Worker_abort_while_windowing:
  assumes a: "a < length (heap w)"
      and n: "n = int (length (vals (heap w ! a)))"
      and ws: "winsize = min max_winsize n"
      and ov: "int_of_float_times_int overlap_ratio winsize = Inr overlap"
      and rg: "py_range 0 n (winsize - overlap) = Inr window_range"
      and j: "j < length window_range" "abort_seen s (abort_reads s + j)"
  shows "fst (Worker_windowed_stt_rendering model a max_winsize overlap_ratio dev thresh max_chars s w)
           = Inl TypeError"
proof -
  define Z where "Z = zeros_like ((heap w ! a)\<lparr>vals := py_slice (vals (heap w ! a)) None (Some winsize)\<rparr>) dev"
  define w1 where "w1 = w\<lparr>heap := heap w @ [Z]\<rparr>"
  have nn: "\<forall>beg\<in>set window_range. 0 \<le> beg"
    by (rule py_range_nonneg[OF rg]) (simp add: n)
  have pp: "\<forall>p\<in>set (py_enumerate1 window_range). 0 \<le> snd p"
    using nn py_enumerate1_props(2)[of window_range] by auto
  have ha: "heap w1 ! a = heap w ! a" using a by (simp add: w1_def nth_append)
  have hb: "heap w1 ! length (heap w) = Z" by (simp add: w1_def)
  have lenZ: "length (vals Z) = length (py_slice (vals (heap w ! a)) None (Some winsize))"
    by (simp add: Z_def zeros_like_def)
  have loop: "fst (Worker_windowed_run_loop model fst a (length (heap w)) winsize
                     (int (length window_range)) (py_enumerate1 window_range) [] s w1) = Inr None"
    by (rule Worker_windowed_run_loop_abort[where j = j])
       (use a pp j in \<open>simp_all add: ha hb lenZ py_enumerate1_props(1)\<close>, simp_all add: w1_def)
  obtain s2 w2 where l2: "Worker_windowed_run_loop model fst a (length (heap w)) winsize
                     (int (length window_range)) (py_enumerate1 window_range) [] s w1
                     = (Inr None, s2, w2)"
    using loop by (cases "Worker_windowed_run_loop model fst a (length (heap w)) winsize
                     (int (length window_range)) (py_enumerate1 window_range) [] s w1") auto
  have run: "Worker_windowed_run model a max_winsize overlap_ratio dev fst s w = (Inr None, s2, w2)"
    unfolding Worker_windowed_run_def Let_def n[symmetric] ws[symmetric] ov sum.case rg
      Z_def[symmetric] w1_def[symmetric]
    by (simp add: l2)
  show ?thesis
    unfolding Worker_windowed_stt_rendering_def run by simp
qed

text \<open>
  C9, evaluated on a two-sample signal cut into two windows. When the abort flag is seen
  at the second read (before the second window), \<open>windowed_run\<close> returns \<open>None\<close> and
  \<open>windowed_stt_rendering\<close>, which unpacks that result, raises \<open>TypeError\<close>: the engine
  raises instead of returning an incomplete result. When the flag is first seen in the
  merging loop, \<open>windowed_stt_rendering\<close> returns \<open>None\<close>, and it is \<open>run\<close> that raises
  \<open>TypeError\<close> on unpacking it. Without an abort the run returns the text and two
  scores.
\<close>

theorem Worker_abort_raises_TypeError:
  "fst (Worker_windowed_run (\<lambda>b. (''hi'', ())) 0 1 (Finite 0) ''cpu'' fst
          (worker_aborting_from 1) short_world) = Inr None
   \<and> fst (Worker_windowed_stt_rendering (\<lambda>b. (''hi'', ())) 0 1 (Finite 0) ''cpu'' (9 / 10) 10
          (worker_aborting_from 1) short_world) = Inl TypeError
   \<and> fst (Worker_windowed_stt_rendering (\<lambda>b. (''hi'', ())) 0 1 (Finite 0) ''cpu'' (9 / 10) 10
          (worker_aborting_from 3) short_world) = Inr None
   \<and> fst (Worker_run (\<lambda>b. (''hi'', ())) 0 1 (Finite 0) ''cpu'' (worker_aborting_from 2)
          short_world) = Inl TypeError
   \<and> fst (Worker_windowed_stt_rendering (\<lambda>b. (''hi'', ())) 0 1 (Finite 0) ''cpu'' (9 / 10) 10
          worker_running short_world) = Inr (Some (''hi'', [1, 1]))"
  by code_simp

end
